(* ===== verification/Prelude.thy ===== *)
theory Prelude
  imports Complex_Main "HOL-Library.Word" "HOL-Library.Multiset"
begin

text \<open>
  What every component of the development shares: the names of the machine types, the
  operations of Rust's \<open>str\<close> and \<open>HashMap\<close> that the sources use, the
  contract of a keyed store as a locale with its interpretation on the map model, and
  reachability of a transition system with the invariant rule.

  A byte is a \<open>char\<close> (HOL's \<open>char\<close> has exactly 256 values) and a Rust
  \<open>String\<close> is its UTF-8 bytes, so \<open>as_bytes\<close> is the identity.
\<close>

type_synonym bytes = string
type_synonym u64 = "64 word"
type_synonym ('k, 'v) hash_map = "('k \<times> 'v) list"

named_theorems str_simps \<open>evaluation of the string operations\<close>
named_theorems keeps \<open>operations that keep a property of the state\<close>
named_theorems emit_rules \<open>events an engine operation emits\<close>
named_theorems engine_defs \<open>definitions of the engine operations\<close>

section \<open>Strings\<close>

text \<open>\<open>str::strip_prefix\<close>.\<close>

fun strip_prefix :: "string \<Rightarrow> string \<Rightarrow> string option" where
  "strip_prefix [] s = Some s"
| "strip_prefix (p # ps) [] = None"
| "strip_prefix (p # ps) (c # cs) = (if p = c then strip_prefix ps cs else None)"

text \<open>\<open>str::starts_with\<close> and \<open>str::ends_with\<close>.\<close>

definition starts_with :: "string \<Rightarrow> string \<Rightarrow> bool" where
  "starts_with s p \<longleftrightarrow> take (length p) s = p"

definition ends_with :: "string \<Rightarrow> string \<Rightarrow> bool" where
  "ends_with s p \<longleftrightarrow> length p \<le> length s \<and> drop (length s - length p) s = p"

text \<open>
  \<open>str::replace\<close> for a non-empty pattern: the matches are found from the left and do
  not overlap.
\<close>

fun str_replace :: "string \<Rightarrow> string \<Rightarrow> string \<Rightarrow> string" where
  "str_replace p r [] = []"
| "str_replace p r (c # cs) =
     (if p \<noteq> [] \<and> starts_with (c # cs) p then r @ str_replace p r (drop (length p - 1) cs)
      else c # str_replace p r cs)"

text \<open>\<open>[&str]::join\<close>.\<close>

fun str_join :: "string \<Rightarrow> string list \<Rightarrow> string" where
  "str_join sep [] = []"
| "str_join sep [x] = x"
| "str_join sep (x # y # ys) = x @ sep @ str_join sep (y # ys)"

text \<open>
  The decimal digits of a number, as \<open>format!("{}", n)\<close> prints an unsigned integer.
\<close>

definition digit_char :: "nat \<Rightarrow> char" where
  "digit_char d = char_of (48 + d)"

fun show_nat :: "nat \<Rightarrow> string" where
  "show_nat n = (if n < 10 then [digit_char n] else show_nat (n div 10) @ [digit_char (n mod 10)])"

declare show_nat.simps [simp del]

text \<open>
  \<open>format!("{s:?}")\<close> on a string: quotes, backslashes and the ASCII control
  characters are escaped, every other byte is printed as it is.
\<close>

definition hex_digit :: "nat \<Rightarrow> char" where
  "hex_digit d = (if d < 10 then char_of (48 + d) else char_of (87 + d))"

definition debug_char :: "char \<Rightarrow> string" where
  "debug_char c =
     (let n = of_char c :: nat in
      if n = 34 then [char_of (92::nat), char_of (34::nat)]
      else if n = 92 then [char_of (92::nat), char_of (92::nat)]
      else if n = 0 then [char_of (92::nat), CHR ''0'']
      else if n = 9 then [char_of (92::nat), CHR ''t'']
      else if n = 10 then [char_of (92::nat), CHR ''n'']
      else if n = 13 then [char_of (92::nat), CHR ''r'']
      else if n < 16 then [char_of (92::nat)] @ ''u{'' @ [hex_digit n] @ ''}''
      else if n < 32 \<or> n = 127
        then [char_of (92::nat)] @ ''u{'' @ [hex_digit (n div 16), hex_digit (n mod 16)] @ ''}''
      else [c])"

definition debug_str :: "string \<Rightarrow> string" where
  "debug_str s = [char_of (34::nat)] @ concat (map debug_char s) @ [char_of (34::nat)]"

section \<open>Hash maps\<close>

text \<open>
  A \<open>HashMap\<close> is an association list with distinct keys. Its iteration order is the
  order of the list, and every theorem quantifies over all lists, so over all orders.
\<close>

definition hm_get :: "('k, 'v) hash_map \<Rightarrow> 'k \<Rightarrow> 'v option" where
  "hm_get m k = map_of m k"

definition hm_remove :: "'k \<Rightarrow> ('k, 'v) hash_map \<Rightarrow> ('k, 'v) hash_map" where
  "hm_remove k m = filter (\<lambda>e. fst e \<noteq> k) m"

definition hm_insert :: "'k \<Rightarrow> 'v \<Rightarrow> ('k, 'v) hash_map \<Rightarrow> ('k, 'v) hash_map" where
  "hm_insert k v m = (k, v) # hm_remove k m"

definition hm_contains_key :: "('k, 'v) hash_map \<Rightarrow> 'k \<Rightarrow> bool" where
  "hm_contains_key m k \<longleftrightarrow> hm_get m k \<noteq> None"

definition hm_retain :: "('k \<Rightarrow> 'v \<Rightarrow> bool) \<Rightarrow> ('k, 'v) hash_map \<Rightarrow> ('k, 'v) hash_map" where
  "hm_retain p m = filter (\<lambda>(k, v). p k v) m"

definition hm_ok :: "('k, 'v) hash_map \<Rightarrow> bool" where
  "hm_ok m \<longleftrightarrow> distinct (map fst m)"

section \<open>Transition systems\<close>

text \<open>The states a system can reach from its initial states.\<close>

inductive reachable :: "('s \<Rightarrow> bool) \<Rightarrow> ('s \<Rightarrow> 's \<Rightarrow> bool) \<Rightarrow> 's \<Rightarrow> bool"
  for start :: "'s \<Rightarrow> bool" and step :: "'s \<Rightarrow> 's \<Rightarrow> bool" where
  reach_start: "start s \<Longrightarrow> reachable start step s"
| reach_step: "reachable start step s \<Longrightarrow> step s t \<Longrightarrow> reachable start step t"

text \<open>The contract of an invariant: it holds at the start and every step keeps it.\<close>

locale inductive_invariant =
  fixes start :: "'s \<Rightarrow> bool"
    and step :: "'s \<Rightarrow> 's \<Rightarrow> bool"
    and inv :: "'s \<Rightarrow> bool"
  assumes inv_start: "start s \<Longrightarrow> inv s"
    and inv_step: "inv s \<Longrightarrow> step s t \<Longrightarrow> inv t"
begin

lemma inv_reachable: "reachable start step s \<Longrightarrow> inv s"
  by (induction rule: reachable.induct) (auto intro: inv_start inv_step)

end

text \<open>
  A transition system simulates another through an abstraction when each step of the
  other is a step or nothing at all.
\<close>

locale forward_simulation = inductive_invariant start step inv
  for start :: "'s \<Rightarrow> bool" and step :: "'s \<Rightarrow> 's \<Rightarrow> bool" and inv :: "'s \<Rightarrow> bool" +
  fixes spec_start :: "'a \<Rightarrow> bool"
    and spec_step :: "'a \<Rightarrow> 'a \<Rightarrow> bool"
    and abstraction :: "'s \<Rightarrow> 'a"
  assumes sim_start: "start s \<Longrightarrow> spec_start (abstraction s)"
    and sim_step: "inv s \<Longrightarrow> step s t \<Longrightarrow>
      abstraction t = abstraction s \<or> spec_step (abstraction s) (abstraction t)"
begin

lemma sim_reachable: "reachable start step s \<Longrightarrow> reachable spec_start spec_step (abstraction s)"
proof (induction rule: reachable.induct)
  case (reach_step s t)
  from sim_step [OF inv_reachable [OF reach_step.hyps(1)] reach_step.hyps(2)] reach_step.IH
  show ?case by (metis reachable.reach_step)
qed (simp add: reachable.reach_start sim_start)

end

section \<open>Lemmas on strings\<close>

lemma starts_with_append [simp]: "starts_with (p @ s) p"
  by (simp add: starts_with_def)

lemma starts_with_iff: "starts_with s p \<longleftrightarrow> (\<exists>t. s = p @ t)"
  by (metis append_take_drop_id starts_with_append starts_with_def)

lemma ends_with_iff: "ends_with s p \<longleftrightarrow> (\<exists>t. s = t @ p)"
proof
  assume "ends_with s p"
  then have "s = take (length s - length p) s @ p"
    by (metis append_take_drop_id ends_with_def)
  then show "\<exists>t. s = t @ p" by blast
qed (auto simp: ends_with_def)

lemma strip_prefix_iff: "strip_prefix p s = Some t \<longleftrightarrow> s = p @ t"
  by (induction p s rule: strip_prefix.induct) auto

lemma strip_prefix_append [simp]: "strip_prefix p (p @ t) = Some t"
  by (simp add: strip_prefix_iff)

lemma find_SomeD: "find P xs = Some x \<Longrightarrow> P x \<and> x \<in> set xs"
  by (auto simp: find_Some_iff)

section \<open>Lemmas on hash maps\<close>

lemma hm_get_remove: "hm_get (hm_remove k m) k' = (if k' = k then None else hm_get m k')"
  by (induction m) (auto simp: hm_get_def hm_remove_def)

lemma hm_get_insert: "hm_get (hm_insert k v m) k' = (if k' = k then Some v else hm_get m k')"
  using hm_get_remove [of k m k'] by (auto simp: hm_insert_def hm_get_def)

lemma hm_ok_Nil [simp]: "hm_ok []"
  by (simp add: hm_ok_def)

lemma hm_ok_remove [intro]: "hm_ok m \<Longrightarrow> hm_ok (hm_remove k m)"
  by (simp add: hm_ok_def hm_remove_def distinct_map_filter)

lemma hm_ok_insert [intro]: "hm_ok m \<Longrightarrow> hm_ok (hm_insert k v m)"
  using hm_ok_remove [of m k] by (auto simp: hm_ok_def hm_insert_def hm_remove_def)

lemma hm_ok_retain [intro]: "hm_ok m \<Longrightarrow> hm_ok (hm_retain p m)"
  by (simp add: hm_ok_def hm_retain_def distinct_map_filter)

lemma hm_get_retain:
  "hm_ok m \<Longrightarrow> hm_get (hm_retain p m) k =
     (case hm_get m k of Some v \<Rightarrow> if p k v then Some v else None | None \<Rightarrow> None)"
proof (induction m)
  case (Cons e m)
  then show ?case
    by (cases e) (auto simp: hm_get_def hm_retain_def hm_ok_def map_of_eq_None_iff image_iff
        split: option.splits)
qed (simp add: hm_get_def hm_retain_def)

lemma hm_get_Nil [simp]: "hm_get [] k = None"
  by (simp add: hm_get_def)

lemma hm_contains_iff: "hm_contains_key m k \<longleftrightarrow> k \<in> fst ` set m"
  by (simp add: hm_contains_key_def hm_get_def map_of_eq_None_iff)

text \<open>
  What the clients of a map rely on: the value under a key after an insert or a removal,
  and that the representation stays well formed.
\<close>

locale keyed_store =
  fixes get :: "'m \<Rightarrow> 'k \<Rightarrow> 'v option"
    and ins :: "'k \<Rightarrow> 'v \<Rightarrow> 'm \<Rightarrow> 'm"
    and rem :: "'k \<Rightarrow> 'm \<Rightarrow> 'm"
    and ok :: "'m \<Rightarrow> bool"
  assumes get_ins: "get (ins k v m) k' = (if k' = k then Some v else get m k')"
    and get_rem: "get (rem k m) k' = (if k' = k then None else get m k')"
    and ok_ins: "ok m \<Longrightarrow> ok (ins k v m)"
    and ok_rem: "ok m \<Longrightarrow> ok (rem k m)"
begin

lemma rem_ins_cancel: "get m k = None \<Longrightarrow> get (rem k (ins k v m)) = get m"
  by (auto simp: get_ins get_rem)

lemma rem_commute: "get (rem k (rem l m)) = get (rem l (rem k m))"
  by (auto simp: get_rem)

lemma ins_other_kept: "get m l = Some u \<Longrightarrow> l \<noteq> k \<Longrightarrow> get (ins k v m) l = Some u"
  by (simp add: get_ins)

end

interpretation hm: keyed_store hm_get hm_insert hm_remove hm_ok
  by unfold_locales (auto simp: hm_get_insert hm_get_remove)

end
