(* ===== verification/Errors.thy ===== *)
theory Errors
  imports Prelude
begin

text \<open>
  \<open>src/src/error.rs\<close> and the error type of \<open>src/src/wire.rs\<close>: the stable
  classification \<open>ErrorKind\<close>, errors with a chain of causes, their constructors,
  their rendering, and the conversions that the \<open>?\<close> operator applies.

  A cause is any \<open>dyn std::error::Error\<close>. The model distinguishes those the
  sources look at (kernel errors, wire errors, I/O errors with their OS error number,
  Python exceptions); any other cause is its rendered text.
\<close>

datatype wire_error =
  MissingDelimiter | MissingParts | BadSignature | DuplicateSignature | Json string

datatype error_kind =
  Interrupted | Closed | TimedOut | Unavailable | InvalidInput | Io | Protocol | Adapter

datatype error = Error (kind: error_kind) (err_message: string) (err_source: "cause option")
  and cause =
    KernelCause error
  | WireCause wire_error
  | IoCause "int option" string
  | PyCause string
  | OtherCause string

text \<open>\<open>zmtpmini::Error\<close>, every variant with its rendered text.\<close>

datatype zmtp_error = ZClosed string | ZIo "int option" string | ZOther string

type_synonym 'a result = "error + 'a"

definition error_new :: "error_kind \<Rightarrow> string \<Rightarrow> error" where
  "error_new k m = Error k m None"

definition caused_by :: "error \<Rightarrow> cause \<Rightarrow> error" where
  "caused_by e c = Error (kind e) (err_message e) (Some c)"

definition context_err :: "error \<Rightarrow> string \<Rightarrow> error" where
  "context_err e m = caused_by (error_new (kind e) m) (KernelCause e)"

definition adapter :: "cause \<Rightarrow> error" where
  "adapter c = caused_by (error_new Adapter ''language adapter failed'') c"

definition interrupted :: error where
  "interrupted = error_new Interrupted ''execution interrupted''"

definition closed :: "string \<Rightarrow> error" where
  "closed resource = error_new Closed (resource @ '' closed'')"

text \<open>\<open>Display\<close> of \<open>WireError\<close> and of \<open>Error\<close>.\<close>

fun show_wire_error :: "wire_error \<Rightarrow> string" where
  "show_wire_error MissingDelimiter = ''missing <IDS|MSG> delimiter''"
| "show_wire_error MissingParts = ''insufficient Jupyter message parts''"
| "show_wire_error BadSignature = ''invalid message signature''"
| "show_wire_error DuplicateSignature = ''duplicate message signature''"
| "show_wire_error (Json e) = ''invalid message JSON: '' @ e"

fun show_error :: "error \<Rightarrow> string" and show_cause :: "cause \<Rightarrow> string" where
  "show_error (Error k m None) = m"
| "show_error (Error k m (Some c)) = m @ '': '' @ show_cause c"
| "show_cause (KernelCause e) = show_error e"
| "show_cause (WireCause w) = show_wire_error w"
| "show_cause (IoCause n t) = t"
| "show_cause (PyCause t) = t"
| "show_cause (OtherCause t) = t"

text \<open>\<open>std::error::Error::source\<close> of a cause.\<close>

fun wire_source :: "wire_error \<Rightarrow> cause option" where
  "wire_source (Json e) = Some (OtherCause e)"
| "wire_source _ = None"

fun cause_source :: "cause \<Rightarrow> cause option" where
  "cause_source (KernelCause e) = err_source e"
| "cause_source (WireCause w) = wire_source w"
| "cause_source _ = None"

text \<open>The conversions into \<open>Error\<close>.\<close>

definition from_io :: "int option \<Rightarrow> string \<Rightarrow> error" where
  "from_io errno text = caused_by (error_new Io ''I/O failed'') (IoCause errno text)"

definition from_json :: "string \<Rightarrow> error" where
  "from_json e = caused_by (error_new InvalidInput ''invalid JSON'') (OtherCause e)"

definition from_wire :: "wire_error \<Rightarrow> error" where
  "from_wire w = caused_by (error_new Protocol ''invalid Jupyter message'') (WireCause w)"

fun zmtp_kind :: "zmtp_error \<Rightarrow> error_kind" where
  "zmtp_kind (ZClosed t) = Closed"
| "zmtp_kind (ZIo n t) = Io"
| "zmtp_kind (ZOther t) = Protocol"

fun zmtp_cause :: "zmtp_error \<Rightarrow> cause" where
  "zmtp_cause (ZClosed t) = OtherCause t"
| "zmtp_cause (ZIo n t) = IoCause n t"
| "zmtp_cause (ZOther t) = OtherCause t"

definition from_zmtp :: "zmtp_error \<Rightarrow> error" where
  "from_zmtp z = caused_by (error_new (zmtp_kind z) ''ZMTP connection failed'') (zmtp_cause z)"

definition from_send :: error where
  "from_send = closed ''kernel service''"

definition from_recv :: "string \<Rightarrow> error" where
  "from_recv e = caused_by (closed ''kernel service'') (OtherCause e)"

definition from_join :: "string \<Rightarrow> error" where
  "from_join e = caused_by (closed ''kernel task'') (OtherCause e)"

text \<open>
  The causes of an error, from the outermost inwards: what a loop over \<open>source()\<close>
  visits.
\<close>

fun chain :: "error \<Rightarrow> cause list" and cause_chain :: "cause \<Rightarrow> cause list" where
  "chain (Error k m None) = []"
| "chain (Error k m (Some c)) = cause_chain c"
| "cause_chain (KernelCause e) = KernelCause e # chain e"
| "cause_chain (WireCause (Json e)) = [WireCause (Json e), OtherCause e]"
| "cause_chain c = [c]"

section \<open>Lemmas\<close>

lemma kind_simps [simp]:
  "kind (error_new k m) = k" "kind (caused_by e c) = kind e" "kind (context_err e m) = kind e"
  "kind (adapter c) = Adapter" "kind interrupted = Interrupted" "kind (closed r) = Closed"
  "kind (from_io n t) = Io" "kind (from_json j) = InvalidInput" "kind (from_wire w) = Protocol"
  "kind (from_zmtp z) = zmtp_kind z" "kind from_send = Closed" "kind (from_recv r) = Closed"
  "kind (from_join j) = Closed"
  by (simp_all add: error_new_def caused_by_def context_err_def adapter_def interrupted_def
      closed_def from_io_def from_json_def from_wire_def from_zmtp_def from_send_def
      from_recv_def from_join_def)

lemma chain_caused_by [simp]: "chain (caused_by e c) = cause_chain c"
  by (simp add: caused_by_def)

lemma chain_context: "chain (context_err e m) = KernelCause e # chain e"
  by (simp add: context_err_def)

lemma show_context: "show_error (context_err e m) = m @ '': '' @ show_error e"
  by (simp add: context_err_def caused_by_def error_new_def)

text \<open>
  Walking \<open>source()\<close> step by step visits exactly the chain: the loop of
  \<open>py_error\<close> sees every cause once.
\<close>

lemma cause_chain_unfold:
  "cause_chain c = c # (case cause_source c of None \<Rightarrow> [] | Some d \<Rightarrow> cause_chain d)"
proof (cases c)
  case (KernelCause e)
  obtain k m s where "e = Error k m s" by (cases e)
  with KernelCause show ?thesis by (cases s) auto
next
  case (WireCause w)
  then show ?thesis by (cases w) auto
qed auto

end
