(* ===== verification/Json.thy ===== *)
theory Json
  imports Errors
begin

text \<open>
  The JSON values the engine reads and builds (\<open>serde_json::Value\<close> with its
  \<open>preserve_order\<close> feature, which the workspace enables) and the accessors of its
  documented interface that the sources call: \<open>get\<close>, \<open>as_str\<close>,
  \<open>as_bool\<close>, \<open>as_u64\<close>, \<open>as_f64\<close>, \<open>as_array\<close>,
  indexing and insertion. The textual parser and printer of the crate are not modelled
  here: they are parameters of the wire codec.

  An object is its entries in insertion order. A float is the rational it denotes (the
  engine only compares floats, and JSON has no NaN or infinity). An integer read as a
  float is rounded to the nearest 53-bit value, ties to even, as Rust's \<open>as f64\<close>
  does.
\<close>

datatype number = PosInt u64 | NegInt int | Float rat

datatype json =
  JNull
| JBool bool
| JNum number
| JStr string
| JArr "json list"
| JObj "(string \<times> json) list"

type_synonym json_map = "(string \<times> json) list"
type_synonym f64 = rat

section \<open>Objects\<close>

fun obj_insert :: "string \<Rightarrow> json \<Rightarrow> json_map \<Rightarrow> json_map" where
  "obj_insert k v [] = [(k, v)]"
| "obj_insert k v ((l, u) # m) = (if l = k then (k, v) # m else (l, u) # obj_insert k v m)"

definition obj_extend :: "json_map \<Rightarrow> json_map \<Rightarrow> json_map" where
  "obj_extend m es = fold (\<lambda>(k, v). obj_insert k v) es m"

fun json_get :: "json \<Rightarrow> string \<Rightarrow> json option" where
  "json_get (JObj m) k = map_of m k"
| "json_get _ k = None"

text \<open>\<open>value["k"]\<close> reads \<open>Null\<close> where the key is missing.\<close>

definition json_index :: "json \<Rightarrow> string \<Rightarrow> json" where
  "json_index v k = (case json_get v k of Some u \<Rightarrow> u | None \<Rightarrow> JNull)"

text \<open>
  \<open>value["k"] = u\<close>: an insertion into an object; \<open>Null\<close> becomes an object
  first. On any other value the crate panics, which is \<open>None\<close>.
\<close>

fun json_set :: "json \<Rightarrow> string \<Rightarrow> json \<Rightarrow> json option" where
  "json_set (JObj m) k u = Some (JObj (obj_insert k u m))"
| "json_set JNull k u = Some (JObj [(k, u)])"
| "json_set _ k u = None"

section \<open>Accessors\<close>

fun as_str :: "json \<Rightarrow> string option" where
  "as_str (JStr s) = Some s"
| "as_str _ = None"

fun as_bool :: "json \<Rightarrow> bool option" where
  "as_bool (JBool b) = Some b"
| "as_bool _ = None"

fun as_u64 :: "json \<Rightarrow> u64 option" where
  "as_u64 (JNum (PosInt n)) = Some n"
| "as_u64 _ = None"

fun as_array :: "json \<Rightarrow> json list option" where
  "as_array (JArr xs) = Some xs"
| "as_array _ = None"

fun as_object :: "json \<Rightarrow> json_map option" where
  "as_object (JObj m) = Some m"
| "as_object _ = None"

text \<open>Integers as floats: 53 significant bits, ties to even.\<close>

fun bit_length :: "nat \<Rightarrow> nat" where
  "bit_length n = (if n = 0 then 0 else Suc (bit_length (n div 2)))"

declare bit_length.simps [simp del]

definition round_f64 :: "nat \<Rightarrow> nat" where
  "round_f64 n =
     (if n < 2 ^ 53 then n
      else let k = bit_length n - 53; q = n div 2 ^ k; r = n mod 2 ^ k; half = 2 ^ (k - 1)
           in if r > half \<or> (r = half \<and> odd q) then (q + 1) * 2 ^ k else q * 2 ^ k)"

fun as_f64 :: "json \<Rightarrow> f64 option" where
  "as_f64 (JNum (PosInt n)) = Some (of_nat (round_f64 (unat n)))"
| "as_f64 (JNum (NegInt i)) = Some (- of_nat (round_f64 (nat (- i))))"
| "as_f64 (JNum (Float q)) = Some q"
| "as_f64 _ = None"

text \<open>\<open>get(k).and_then(as_x).unwrap_or(d)\<close>, the way the sources read a field.\<close>

definition field_or :: "(json \<Rightarrow> 'a option) \<Rightarrow> json option \<Rightarrow> 'a \<Rightarrow> 'a" where
  "field_or as_x v d = (case v of Some u \<Rightarrow> (case as_x u of Some a \<Rightarrow> a | None \<Rightarrow> d) | None \<Rightarrow> d)"

abbreviation str_field :: "json \<Rightarrow> string \<Rightarrow> string \<Rightarrow> string" where
  "str_field v k d \<equiv> field_or as_str (json_get v k) d"

abbreviation bool_field :: "json \<Rightarrow> string \<Rightarrow> bool \<Rightarrow> bool" where
  "bool_field v k d \<equiv> field_or as_bool (json_get v k) d"

abbreviation u64_field :: "json \<Rightarrow> string \<Rightarrow> u64 \<Rightarrow> u64" where
  "u64_field v k d \<equiv> field_or as_u64 (json_get v k) d"

abbreviation jnat :: "u64 \<Rightarrow> json" where
  "jnat n \<equiv> JNum (PosInt n)"

section \<open>Lemmas\<close>

lemma map_of_obj_insert: "map_of (obj_insert k v m) l = (if l = k then Some v else map_of m l)"
  by (induction m) auto

lemma json_get_set:
  "json_set j k u = Some j' \<Longrightarrow> json_get j' l = (if l = k then Some u else json_get j l)"
  by (cases j) (auto simp: map_of_obj_insert)

lemma obj_insert_keys: "fst ` set (obj_insert k v m) = insert k (fst ` set m)"
proof (induction m)
  case (Cons e m)
  then show ?case
    by (cases e) (simp add: insert_commute)
qed simp

lemma obj_insert_distinct: "distinct (map fst m) \<Longrightarrow> distinct (map fst (obj_insert k v m))"
proof (induction m)
  case (Cons e m)
  obtain l u where e: "e = (l, u)" by (cases e)
  have "l \<noteq> k \<Longrightarrow> l \<notin> fst ` set m \<Longrightarrow> l \<notin> fst ` set (obj_insert k v m)"
    by (simp add: obj_insert_keys)
  with Cons e show ?case by auto
qed simp

lemma obj_insert_last: "k \<notin> fst ` set m \<Longrightarrow> obj_insert k v m = m @ [(k, v)]"
  by (induction m) auto

lemma map_of_obj_extend:
  "map_of (obj_extend m es) l = (case map_of (rev es) l of Some v \<Rightarrow> Some v | None \<Rightarrow> map_of m l)"
  unfolding obj_extend_def
  by (induction es arbitrary: m)
    (auto simp: map_of_obj_insert map_add_def split: option.splits)

lemma field_or_simps [simp]:
  "field_or as_x None d = d"
  "as_x u = Some a \<Longrightarrow> field_or as_x (Some u) d = a"
  "as_x u = None \<Longrightarrow> field_or as_x (Some u) d = d"
  by (simp_all add: field_or_def)

text \<open>Small integers are exact as floats; the first that is not is \<open>2 ^ 53 + 1\<close>.\<close>

lemma round_f64_exact: "n < 2 ^ 53 \<Longrightarrow> round_f64 n = n"
  by (simp add: round_f64_def)

lemma round_f64_tie: "round_f64 9007199254740993 = 9007199254740992"
  by (simp add: round_f64_def bit_length.simps Let_def)

end
