(* ===== verification/Wire.thy ===== *)
theory Wire
  imports Json
begin

text \<open>
  \<open>src/src/wire.rs\<close>: Jupyter messages, the signed multipart framing, and the
  replay protection of a session.

  The crates the codec calls are the fields of the record \<open>crates\<close>: the JSON
  printer and parser, HMAC-SHA256 over a sequence of updates, hexadecimal encoding, the
  UUID generator and the clock. The last two are indexed by a draw number, so that two
  calls may return different values.
\<close>

record message =
  identities :: "bytes list"
  header :: json_map
  parent_header :: json_map
  metadata :: json_map
  content :: json
  buffers :: "bytes list"

definition default_message :: message where
  "default_message = \<lparr>identities = [], header = [], parent_header = [], metadata = [],
     content = JNull, buffers = []\<rparr>"

record session =
  key :: bytes
  seen :: "bytes set"
  session_id :: string
  username :: string

record crates =
  to_vec :: "json \<Rightarrow> string + bytes"
  from_slice :: "bytes \<Rightarrow> string + json"
  from_slice_map :: "bytes \<Rightarrow> string + json_map"
  hmac_sha256 :: "bytes \<Rightarrow> bytes list \<Rightarrow> bytes"
  hex_encode :: "bytes \<Rightarrow> bytes"
  uuid_v4 :: "nat \<Rightarrow> string"
  utc_now :: "nat \<Rightarrow> string"

definition DELIMITER :: bytes where
  "DELIMITER = ''<IDS|MSG>''"

definition msg_type :: "message \<Rightarrow> string" where
  "msg_type m = field_or as_str (map_of (header m) ''msg_type'') ''''"

definition msg_id :: "message \<Rightarrow> string" where
  "msg_id m = field_or as_str (map_of (header m) ''msg_id'') ''''"

definition session_new :: "crates \<Rightarrow> nat \<Rightarrow> bytes \<Rightarrow> string \<Rightarrow> session" where
  "session_new c n k user = \<lparr>key = k, seen = {}, session_id = uuid_v4 c n, username = user\<rparr>"

definition signature :: "crates \<Rightarrow> session \<Rightarrow> bytes list \<Rightarrow> bytes" where
  "signature c s json_parts =
     (if key s = [] then [] else hex_encode c (hmac_sha256 c (key s) json_parts))"

text \<open>\<open>Iterator::position\<close>.\<close>

fun position :: "('a \<Rightarrow> bool) \<Rightarrow> 'a list \<Rightarrow> nat option" where
  "position p [] = None"
| "position p (x # xs) = (if p x then Some 0 else map_option Suc (position p xs))"

text \<open>The four JSON parts, parsed in the order of the struct expression in \<open>decode\<close>.\<close>

definition parse_parts :: "crates \<Rightarrow> bytes list \<Rightarrow> bytes list \<Rightarrow> bytes list \<Rightarrow> wire_error + message"
where
  "parse_parts c ids parts bufs =
     (case from_slice_map c (parts ! 0) of Inl e \<Rightarrow> Inl (Json e) | Inr h \<Rightarrow>
      (case from_slice_map c (parts ! 1) of Inl e \<Rightarrow> Inl (Json e) | Inr p \<Rightarrow>
       (case from_slice_map c (parts ! 2) of Inl e \<Rightarrow> Inl (Json e) | Inr md \<Rightarrow>
        (case from_slice c (parts ! 3) of Inl e \<Rightarrow> Inl (Json e) | Inr body \<Rightarrow>
           Inr \<lparr>identities = ids, header = h, parent_header = p, metadata = md,
                content = body, buffers = bufs\<rparr>))))"

definition decode :: "crates \<Rightarrow> session \<Rightarrow> bytes list \<Rightarrow> (wire_error + message) \<times> session" where
  "decode c s frames =
     (case position (\<lambda>part. part = DELIMITER) frames of
        None \<Rightarrow> (Inl MissingDelimiter, s)
      | Some delimiter \<Rightarrow>
          if length frames < delimiter + 6 then (Inl MissingParts, s)
          else
            let sig = frames ! (delimiter + 1);
                json_parts = take 4 (drop (delimiter + 2) frames);
                parsed = parse_parts c (take delimiter frames) json_parts (drop (delimiter + 6) frames)
            in if key s \<noteq> [] then
                 if signature c s json_parts \<noteq> sig then (Inl BadSignature, s)
                 else if sig \<in> seen s then (Inl DuplicateSignature, s)
                 else (parsed, s\<lparr>seen := insert sig (seen s)\<rparr>)
               else (parsed, s))"

definition encode :: "crates \<Rightarrow> session \<Rightarrow> message \<Rightarrow> wire_error + bytes list" where
  "encode c s m =
     (case to_vec c (JObj (header m)) of Inl e \<Rightarrow> Inl (Json e) | Inr h \<Rightarrow>
      (case to_vec c (JObj (parent_header m)) of Inl e \<Rightarrow> Inl (Json e) | Inr p \<Rightarrow>
       (case to_vec c (JObj (metadata m)) of Inl e \<Rightarrow> Inl (Json e) | Inr md \<Rightarrow>
        (case to_vec c (content m) of Inl e \<Rightarrow> Inl (Json e) | Inr body \<Rightarrow>
           let json_parts = [h, p, md, body]
           in Inr (identities m @ [DELIMITER] @ [signature c s json_parts] @ json_parts @ buffers m)))))"

definition session_message ::
  "crates \<Rightarrow> session \<Rightarrow> nat \<Rightarrow> string \<Rightarrow> json \<Rightarrow> message option \<Rightarrow> message" where
  "session_message c s n mtype body parent =
     \<lparr>identities = [],
      header = [(''msg_id'', JStr (uuid_v4 c n)), (''session'', JStr (session_id s)),
                (''username'', JStr (username s)), (''date'', JStr (utc_now c n)),
                (''msg_type'', JStr mtype), (''version'', JStr ''5.3'')],
      parent_header = (case parent of Some m \<Rightarrow> header m | None \<Rightarrow> []),
      metadata = [], content = body, buffers = []\<rparr>"

definition session_reply :: "crates \<Rightarrow> session \<Rightarrow> nat \<Rightarrow> message \<Rightarrow> string \<Rightarrow> json \<Rightarrow> message" where
  "session_reply c s n request mtype body = session_message c s n mtype body (Some request)"

text \<open>A connection decoding its frames one after the other, the session shared.\<close>

fun decode_all :: "crates \<Rightarrow> session \<Rightarrow> bytes list list \<Rightarrow> (wire_error + message) list \<times> session" where
  "decode_all c s [] = ([], s)"
| "decode_all c s (f # fs) =
     (let (r, s') = decode c s f; (rs, s'') = decode_all c s' fs in (r # rs, s''))"

text \<open>The signature a frame list carries, where it carries one.\<close>

definition frame_signature :: "bytes list \<Rightarrow> bytes option" where
  "frame_signature frames =
     (case position (\<lambda>part. part = DELIMITER) frames of
        None \<Rightarrow> None
      | Some d \<Rightarrow> if length frames < d + 6 then None else Some (frames ! (d + 1)))"

text \<open>The four signed parts of a frame list.\<close>

definition frame_parts :: "bytes list \<Rightarrow> bytes list" where
  "frame_parts frames =
     (case position (\<lambda>part. part = DELIMITER) frames of
        None \<Rightarrow> [] | Some d \<Rightarrow> take 4 (drop (d + 2) frames))"

text \<open>What the documentation of \<open>serde_json\<close> promises of the values the engine sends.\<close>

definition prints :: "crates \<Rightarrow> bool" where
  "prints c \<longleftrightarrow> (\<forall>v. \<exists>b. to_vec c v = Inr b)"

definition reads_back :: "crates \<Rightarrow> message \<Rightarrow> bool" where
  "reads_back c m \<longleftrightarrow>
     (\<forall>ob\<in>{header m, parent_header m, metadata m}. \<forall>b.
        to_vec c (JObj ob) = Inr b \<longrightarrow> from_slice_map c b = Inr ob) \<and>
     (\<forall>b. to_vec c (content m) = Inr b \<longrightarrow> from_slice c b = Inr (content m))"

section \<open>Lemmas\<close>

lemma position_delimiter:
  "DELIMITER \<notin> set ids \<Longrightarrow>
   position (\<lambda>part. part = DELIMITER) (ids @ DELIMITER # rest) = Some (length ids)"
  by (induction ids) auto

lemma signature_key: "key s = key s' \<Longrightarrow> signature c s ps = signature c s' ps"
  by (simp add: signature_def)

lemma decode_frames:
  assumes "DELIMITER \<notin> set ids" and "length parts = 4"
  shows "decode c s (ids @ DELIMITER # sig # parts @ bufs) =
    (if key s \<noteq> [] then
       if signature c s parts \<noteq> sig then (Inl BadSignature, s)
       else if sig \<in> seen s then (Inl DuplicateSignature, s)
       else (parse_parts c ids parts bufs, s\<lparr>seen := insert sig (seen s)\<rparr>)
     else (parse_parts c ids parts bufs, s))"
  using assms
  by (simp add: decode_def position_delimiter Let_def nth_append)

lemma decode_key: "key (snd (decode c s f)) = key s"
  by (simp add: decode_def Let_def split: option.splits)

lemma decode_seen_mono: "seen s \<subseteq> seen (snd (decode c s f))"
  by (auto simp: decode_def Let_def split: option.splits)

lemma decode_accepts:
  assumes "key s \<noteq> []" and "decode c s f = (Inr m, s')"
  shows "\<exists>sig. frame_signature f = Some sig \<and> sig = signature c s (frame_parts f) \<and>
     sig \<notin> seen s \<and> seen s' = insert sig (seen s)"
  using assms
  by (auto simp: decode_def frame_signature_def frame_parts_def Let_def
      split: option.splits if_splits)

lemma decode_all_Cons:
  "decode_all c s (f # fs) =
     (fst (decode c s f) # fst (decode_all c (snd (decode c s f)) fs),
      snd (decode_all c (snd (decode c s f)) fs))"
  by (simp add: Let_def split: prod.splits)

text \<open>The signatures of the frame lists a run of \<open>decode\<close> accepts, in order.\<close>

fun accepted_signatures :: "crates \<Rightarrow> session \<Rightarrow> bytes list list \<Rightarrow> bytes list" where
  "accepted_signatures c s [] = []"
| "accepted_signatures c s (f # fs) =
     (case decode c s f of
        (Inr m, s') \<Rightarrow> the (frame_signature f) # accepted_signatures c s' fs
      | (Inl e, s') \<Rightarrow> accepted_signatures c s' fs)"

lemma accepted_signatures_fresh:
  "key s \<noteq> [] \<Longrightarrow>
   distinct (accepted_signatures c s fs) \<and> set (accepted_signatures c s fs) \<inter> seen s = {}"
proof (induction fs arbitrary: s)
  case (Cons f fs)
  obtain r s' where d: "decode c s f = (r, s')" by fastforce
  have "key s' \<noteq> []" and mono: "seen s \<subseteq> seen s'"
    using Cons.prems decode_key [of c s f] decode_seen_mono [of s c f] by (simp_all add: d)
  note IH = Cons.IH [OF this(1)]
  show ?case
  proof (cases r)
    case (Inl e)
    then show ?thesis using IH mono d by auto
  next
    case (Inr m)
    with d decode_accepts [OF Cons.prems, of c f m s'] obtain sig where
      "frame_signature f = Some sig" "sig \<notin> seen s" "seen s' = insert sig (seen s)" by auto
    then show ?thesis using IH d Inr by auto
  qed
qed simp

lemma msg_type_session_message [simp]: "msg_type (session_message c s n t b p) = t"
  by (simp add: msg_type_def session_message_def)

lemma msg_id_session_message [simp]: "msg_id (session_message c s n t b p) = uuid_v4 c n"
  by (simp add: msg_id_def session_message_def)

lemma session_message_fields [simp]:
  "identities (session_message c s n t b p) = []"
  "parent_header (session_message c s n t b p) = (case p of Some m \<Rightarrow> header m | None \<Rightarrow> [])"
  "metadata (session_message c s n t b p) = []"
  "content (session_message c s n t b p) = b"
  "buffers (session_message c s n t b p) = []"
  by (simp_all add: session_message_def)

lemma encode_prints: "prints c \<Longrightarrow> \<exists>frames. encode c s m = Inr frames"
  unfolding prints_def encode_def Let_def by (metis (no_types, lifting) sum.case(2))

lemma encode_shape:
  "encode c s m = Inr frames \<Longrightarrow>
   \<exists>h p md b. to_vec c (JObj (header m)) = Inr h \<and> to_vec c (JObj (parent_header m)) = Inr p \<and>
     to_vec c (JObj (metadata m)) = Inr md \<and> to_vec c (content m) = Inr b \<and>
     frames = identities m @ DELIMITER # signature c s [h, p, md, b] # [h, p, md, b] @ buffers m"
  by (auto simp: encode_def Let_def split: sum.splits)

section \<open>Properties\<close>

text \<open>
  C8. Round trip. A message whose identities do not contain the delimiter frame, encoded
  by one session and decoded by another with the same key, comes back unchanged (buffers
  and identities included), and the decoding session has recorded its signature, provided
  the signature was not seen before and the JSON crate reads back what it prints.
\<close>

theorem decode_encode:
  assumes "encode c s m = Inr frames" and "key s' = key s"
    and "DELIMITER \<notin> set (identities m)" and "reads_back c m"
    and "\<And>sig. frame_signature frames = Some sig \<Longrightarrow> sig \<notin> seen s'"
  shows "\<exists>sig. frame_signature frames = Some sig \<and>
    decode c s' frames =
      (Inr m, if key s' = [] then s' else s'\<lparr>seen := insert sig (seen s')\<rparr>)"
proof -
  from encode_shape [OF assms(1)] obtain h p md b where
    vec: "to_vec c (JObj (header m)) = Inr h" "to_vec c (JObj (parent_header m)) = Inr p"
      "to_vec c (JObj (metadata m)) = Inr md" "to_vec c (content m) = Inr b"
    and f: "frames = identities m @ DELIMITER # signature c s [h, p, md, b] # [h, p, md, b] @ buffers m"
    by blast
  have sig: "frame_signature frames = Some (signature c s [h, p, md, b])"
    using assms(3) by (simp add: f frame_signature_def position_delimiter nth_append)
  have "parse_parts c (identities m) [h, p, md, b] (buffers m) = Inr m"
    using vec assms(4) by (simp add: parse_parts_def reads_back_def)
  with sig show ?thesis
    using decode_frames [OF assms(3), of "[h, p, md, b]" c s' "signature c s [h, p, md, b]" "buffers m"]
      assms(2,5) signature_key [OF assms(2)] by (simp add: f)
qed

text \<open>
  A concrete instance of the crates, on which the hypotheses of the properties can be
  discharged: a printer that is faithful on the empty object and on null, and a MAC that
  concatenates the key and the parts.
\<close>

definition demo_crates :: crates where
  "demo_crates =
     \<lparr>to_vec = (\<lambda>v. Inr (if v = JObj [] then ''{}'' else ''null'')),
      from_slice = (\<lambda>b. Inr (if b = ''null'' then JNull else JObj [])),
      from_slice_map = (\<lambda>b. Inr []), hmac_sha256 = (\<lambda>k ps. k @ concat ps),
      hex_encode = (\<lambda>b. b), uuid_v4 = (\<lambda>n. replicate (Suc n) CHR ''u''), utc_now = (\<lambda>n. ''now'')\<rparr>"

definition demo_session :: session where
  "demo_session = \<lparr>key = ''k'', seen = {}, session_id = ''s'', username = ''kernel''\<rparr>"

definition demo_frames :: "bytes list" where
  "demo_frames = [''c'', DELIMITER, ''k{}{}{}null'', ''{}'', ''{}'', ''{}'', ''null'', ''x'']"

lemmas demo_defs = demo_crates_def demo_session_def demo_frames_def default_message_def

theorem decode_encode_witness:
  "decode demo_crates demo_session demo_frames =
     (Inr (default_message\<lparr>identities := [''c''], buffers := [''x'']\<rparr>),
      demo_session\<lparr>seen := {''k{}{}{}null''}\<rparr>)"
proof -
  let ?m = "default_message\<lparr>identities := [''c''], buffers := [''x'']\<rparr>"
  have enc: "encode demo_crates demo_session ?m = Inr demo_frames"
    by (simp add: encode_def demo_defs Let_def signature_def)
  have sig: "frame_signature demo_frames = Some ''k{}{}{}null''"
    by (simp add: frame_signature_def demo_defs DELIMITER_def)
  show ?thesis
    using decode_encode [OF enc refl] sig
    by (simp add: reads_back_def demo_defs DELIMITER_def)
qed

text \<open>
  C9. Replay protection. With a non-empty key, the signatures of the messages that a
  session accepts over any sequence of received frame lists are pairwise distinct, and
  none of them was recorded before the sequence began.
\<close>

theorem accepted_once:
  assumes "key s \<noteq> []"
  shows "distinct (accepted_signatures c s fs) \<and> set (accepted_signatures c s fs) \<inter> seen s = {}"
  using accepted_signatures_fresh [OF assms] .

theorem accepted_once_witness:
  "accepted_signatures demo_crates demo_session [demo_frames, demo_frames] = [''k{}{}{}null''] \<and>
   distinct (accepted_signatures demo_crates demo_session [demo_frames, demo_frames]) \<and>
   set (accepted_signatures demo_crates demo_session [demo_frames, demo_frames]) \<inter> seen demo_session = {}"
  using accepted_once [of demo_session demo_crates "[demo_frames, demo_frames]"]
  by (simp add: demo_defs decode_def Let_def DELIMITER_def signature_def parse_parts_def frame_signature_def)




end
