(* ===== verification/Language_Api.thy ===== *)
theory Language_Api
  imports Wire
begin

text \<open>
  \<open>src/src/language.rs\<close>: the requests, outcomes and events that cross the language
  boundary, the interrupt token of an execution, the context an execution talks to, the
  default replies, and the interface a language implements.

  A language is foreign code: the record \<open>language\<close> holds its methods as
  parameters. Every method takes the moment of the call (a number no other call shares),
  so a method may answer differently each time it is called. \<open>lang_execute\<close> and
  \<open>lang_message\<close> also give what the language sent to its context, cut into the
  batches in which the output pump received it.
\<close>

record kernel_info =
  implementation :: string
  implementation_version :: string
  banner :: string
  language_info :: json

record execute_request =
  er_code :: string
  er_silent :: bool
  er_store_history :: bool
  er_user_expressions :: json
  er_allow_stdin :: bool

record complete_request =
  cr_code :: string
  cr_cursor_pos :: u64

record inspect_request =
  ir_code :: string
  ir_cursor_pos :: u64
  ir_detail_level :: u64

record language_message =
  lm_msg_type :: string
  lm_content :: json
  lm_buffers :: "bytes list"

record language_error =
  ename :: string
  evalue :: string
  traceback :: "string list"

record execute_outcome =
  out_result :: "json option"
  out_result_metadata :: json
  out_error :: "language_error option"
  out_user_expressions :: json
  out_payload :: json

definition default_outcome :: execute_outcome where
  "default_outcome = \<lparr>out_result = None, out_result_metadata = JObj [], out_error = None,
     out_user_expressions = JObj [], out_payload = JArr []\<rparr>"

datatype language_event =
  Stream string string
| Display json "bytes list"
| Message string json json "bytes option" "bytes list"

datatype context_message =
  Event language_event
| Flush
| Input string bool

datatype session_command =
  Open (cmd_client_session: string) (cmd_requested_id: "string option") (cmd_complete: nat)
| CloseRoute (cmd_client_session: string) (cmd_subshell_id: string) (cmd_delete: bool) (cmd_complete: nat)

section \<open>Interrupts of one execution\<close>

text \<open>
  A handler is known by a number. \<open>request\<close> and \<open>set_handler\<close> run under the
  token's lock up to the point where the handler is called; the model returns the result,
  the new token and the handlers it called.
\<close>

record execution_interrupt =
  requested :: bool
  handler :: "nat option"

definition default_interrupt :: execution_interrupt where
  "default_interrupt = \<lparr>requested = False, handler = None\<rparr>"

definition request :: "(nat \<Rightarrow> unit result) \<Rightarrow> execution_interrupt \<Rightarrow>
    bool result \<times> execution_interrupt \<times> nat list" where
  "request call i =
     (let first = \<not> requested i; i' = i\<lparr>requested := True\<rparr> in
      case handler i of
        None \<Rightarrow> (Inr first, i', [])
      | Some h \<Rightarrow> (case call h of Inl e \<Rightarrow> (Inl e, i', [h]) | Inr _ \<Rightarrow> (Inr first, i', [h])))"

definition set_handler :: "(nat \<Rightarrow> unit result) \<Rightarrow> nat \<Rightarrow> execution_interrupt \<Rightarrow>
    unit result \<times> execution_interrupt \<times> nat list" where
  "set_handler call h i =
     (if handler i \<noteq> None
      then (Inl (error_new InvalidInput ''execution interrupt handler already registered''), i, [])
      else let i' = i\<lparr>handler := Some h\<rparr> in
           if requested i then (call h, i', [h]) else (Inr (), i', []))"

text \<open>\<open>cancelled\<close> returns at once exactly when the token has been requested.\<close>

definition cancelled :: "execution_interrupt \<Rightarrow> bool" where
  "cancelled i = requested i"

datatype interrupt_op = Request | SetHandler nat

fun interrupt_apply :: "(nat \<Rightarrow> unit result) \<Rightarrow> interrupt_op \<Rightarrow> execution_interrupt \<Rightarrow>
    execution_interrupt \<times> nat list" where
  "interrupt_apply call Request i = snd (request call i)"
| "interrupt_apply call (SetHandler h) i = snd (set_handler call h i)"

fun interrupt_run :: "(nat \<Rightarrow> unit result) \<Rightarrow> interrupt_op list \<Rightarrow> execution_interrupt \<Rightarrow>
    execution_interrupt \<times> nat list" where
  "interrupt_run call [] i = (i, [])"
| "interrupt_run call (x # xs) i =
     (let r = interrupt_apply call x i; r' = interrupt_run call xs (fst r)
      in (fst r', snd r @ snd r'))"

section \<open>The context of an execution\<close>

text \<open>
  \<open>ctx_subshells\<close> is the client session whose route the execution may change, where
  subshell access was granted. The three blocking calls either fail before they send
  anything or hand one message to the engine, whose answer they then wait for.
\<close>

record execution_context =
  ctx_subshells :: "string option"
  ctx_parent :: json
  ctx_allow_stdin :: bool
  ctx_execution_count :: u64

definition context_input :: "execution_context \<Rightarrow> execution_interrupt \<Rightarrow> string \<Rightarrow> bool \<Rightarrow>
    context_message result" where
  "context_input ctx i prompt password =
     (if \<not> ctx_allow_stdin ctx
      then Inl (error_new Unavailable ''input is unavailable in this execution'')
      else if requested i then Inl interrupted
      else Inr (Input prompt password))"

definition open_subshell :: "execution_context \<Rightarrow> string option \<Rightarrow> nat \<Rightarrow> session_command result" where
  "open_subshell ctx subshell_id reply_to =
     (case ctx_subshells ctx of
        None \<Rightarrow> Inl (error_new Unavailable ''subshells are not available'')
      | Some client \<Rightarrow> Inr (Open client subshell_id reply_to))"

definition close_subshell :: "execution_context \<Rightarrow> string \<Rightarrow> bool \<Rightarrow> nat \<Rightarrow> session_command result" where
  "close_subshell ctx subshell_id delete reply_to =
     (case ctx_subshells ctx of
        None \<Rightarrow> Inl (error_new Unavailable ''subshells are not available'')
      | Some client \<Rightarrow> Inr (CloseRoute client subshell_id delete reply_to))"

section \<open>Languages\<close>

record language =
  lang_kernel_info :: "nat \<Rightarrow> kernel_info result"
  lang_supports_debugger :: "nat \<Rightarrow> bool"
  lang_supported_features :: "nat \<Rightarrow> string list"
  lang_set_debug_sender :: "nat \<Rightarrow> unit result"
  lang_set_kernel_context :: "nat \<Rightarrow> execution_context \<Rightarrow> unit result"
  lang_execute :: "nat \<Rightarrow> execute_request \<Rightarrow> execution_context \<Rightarrow>
    context_message list list \<times> execute_outcome result"
  lang_complete :: "nat \<Rightarrow> complete_request \<Rightarrow> json result"
  lang_inspect :: "nat \<Rightarrow> inspect_request \<Rightarrow> json result"
  lang_is_complete :: "nat \<Rightarrow> string \<Rightarrow> json result"
  lang_history :: "nat \<Rightarrow> json \<Rightarrow> json result"
  lang_comm_info :: "nat \<Rightarrow> json \<Rightarrow> json result"
  lang_debug :: "nat \<Rightarrow> json \<Rightarrow> json result"
  lang_message :: "nat \<Rightarrow> language_message \<Rightarrow> execution_context \<Rightarrow>
    context_message list list \<times> unit result"
  lang_shutdown :: "nat \<Rightarrow> unit result"

definition complete_default :: "u64 \<Rightarrow> json" where
  "complete_default cursor_pos = JObj [(''status'', JStr ''ok''), (''matches'', JArr []),
     (''cursor_start'', jnat cursor_pos), (''cursor_end'', jnat cursor_pos), (''metadata'', JObj [])]"

definition inspect_default :: json where
  "inspect_default = JObj [(''status'', JStr ''ok''), (''found'', JBool False), (''data'', JObj []),
     (''metadata'', JObj [])]"

definition is_complete_default :: json where
  "is_complete_default = JObj [(''status'', JStr ''unknown'')]"

definition history_default :: json where
  "history_default = JObj [(''status'', JStr ''ok''), (''history'', JArr [])]"

definition comm_info_default :: json where
  "comm_info_default = JObj [(''status'', JStr ''ok''), (''comms'', JObj [])]"

definition debug_default :: json where
  "debug_default = JObj [(''response'', JObj [(''success'', JBool False),
     (''message'', JStr ''debugger not supported'')]), (''events'', JArr [])]"

text \<open>
  A session that supplies only \<open>kernel_info\<close> and \<open>execute\<close>: every other
  method is the trait's default.
\<close>

definition default_session :: "(nat \<Rightarrow> kernel_info result) \<Rightarrow>
    (nat \<Rightarrow> execute_request \<Rightarrow> execution_context \<Rightarrow> context_message list list \<times> execute_outcome result) \<Rightarrow>
    language" where
  "default_session info exec =
     \<lparr>lang_kernel_info = info, lang_supports_debugger = (\<lambda>_. False),
      lang_supported_features = (\<lambda>_. []), lang_set_debug_sender = (\<lambda>_. Inr ()),
      lang_set_kernel_context = (\<lambda>_ _. Inr ()), lang_execute = exec,
      lang_complete = (\<lambda>_ r. Inr (complete_default (cr_cursor_pos r))),
      lang_inspect = (\<lambda>_ _. Inr inspect_default),
      lang_is_complete = (\<lambda>_ _. Inr is_complete_default),
      lang_history = (\<lambda>_ _. Inr history_default),
      lang_comm_info = (\<lambda>_ _. Inr comm_info_default),
      lang_debug = (\<lambda>_ _. Inr debug_default),
      lang_message = (\<lambda>_ _ _. ([], Inr ())),
      lang_shutdown = (\<lambda>_. Inr ())\<rparr>"

text \<open>The \<open>Language\<close> trait, and a session as a language without subshells.\<close>

record language_family =
  parent_session :: language
  supports_children :: bool
  create_child :: "nat \<Rightarrow> language result"

definition session_as_language :: "language \<Rightarrow> language_family" where
  "session_as_language s = \<lparr>parent_session = s, supports_children = False,
     create_child = (\<lambda>_. Inl (error_new Unavailable ''subshells are not supported''))\<rparr>"

section \<open>Lemmas\<close>

lemma request_simps [simp]:
  "requested (fst (snd (request call i)))"
  "handler (fst (snd (request call i))) = handler i"
  "snd (snd (request call i)) = (case handler i of None \<Rightarrow> [] | Some h \<Rightarrow> [h])"
  by (simp_all add: request_def Let_def split: option.splits sum.splits)

lemma set_handler_simps [simp]:
  "requested (fst (snd (set_handler call h i))) = requested i"
  "handler (fst (snd (set_handler call h i))) = (if handler i = None then Some h else handler i)"
  "snd (snd (set_handler call h i)) = (if handler i = None \<and> requested i then [h] else [])"
  by (simp_all add: set_handler_def Let_def)

text \<open>A registered handler is never replaced and runs once for each further request.\<close>

lemma interrupt_run_registered:
  "handler i = Some h \<Longrightarrow>
   snd (interrupt_run call ops i) = replicate (count_list ops Request) h"
proof (induction ops arbitrary: i)
  case (Cons x ops)
  then show ?case
    by (cases x) (simp_all add: Let_def)
qed simp

lemma interrupt_run_unregistered:
  "handler i = None \<Longrightarrow> \<forall>h. SetHandler h \<notin> set ops \<Longrightarrow>
   handler (fst (interrupt_run call ops i)) = None \<and>
   requested (fst (interrupt_run call ops i)) = (requested i \<or> Request \<in> set ops) \<and>
   snd (interrupt_run call ops i) = []"
proof (induction ops arbitrary: i)
  case (Cons x ops)
  then show ?case
    by (cases x) (auto simp: Let_def)
qed simp

lemma interrupt_run_append:
  "interrupt_run call (xs @ ys) i =
     (fst (interrupt_run call ys (fst (interrupt_run call xs i))),
      snd (interrupt_run call xs i) @ snd (interrupt_run call ys (fst (interrupt_run call xs i))))"
  by (induction xs arbitrary: i) (simp_all add: Let_def)

section \<open>Properties\<close>

text \<open>
  No interrupt is lost. On a fresh token, the first handler registered is called once
  at registration exactly when a request came before it, and once more for every request
  after it; later registrations change nothing and no other handler is ever called,
  whatever the handlers return.
\<close>

theorem every_request_delivered:
  assumes "\<forall>g. SetHandler g \<notin> set pre"
  shows "snd (interrupt_run call (pre @ SetHandler h # post) default_interrupt) =
    (if Request \<in> set pre then [h] else []) @ replicate (count_list post Request) h"
proof -
  let ?i = "fst (interrupt_run call pre default_interrupt)"
  have "handler ?i = None" "requested ?i = (Request \<in> set pre)"
    "snd (interrupt_run call pre default_interrupt) = []"
    using interrupt_run_unregistered [OF _ assms, of default_interrupt call]
    by (simp_all add: default_interrupt_def)
  then show ?thesis
    by (simp add: interrupt_run_append Let_def
        interrupt_run_registered [of "fst (snd (set_handler call h ?i))"])
qed

theorem every_request_delivered_witness:
  "snd (interrupt_run (\<lambda>_. Inr ()) ([Request] @ SetHandler 7 # [Request, SetHandler 8, Request])
     default_interrupt) = [7, 7, 7]"
  using every_request_delivered [of "[Request]" "\<lambda>_. Inr ()" 7 "[Request, SetHandler 8, Request]"]
  by (simp add: numeral_2_eq_2)

end
