(* ===== verification/Effects.thy ===== *)
theory Effects
  imports Language_Api
begin

text \<open>
  The effects of the engine (\<open>src/src/engine.rs\<close>, with the sends of
  \<open>src/src/transport.rs\<close> it makes): a fallible operation is a function from a state
  to a result and a new state. The state is an extension of the record \<open>world\<close>,
  which logs every message published and every reply sent, so that an operation of a
  component whose record extends \<open>world\<close> uses the same primitives.

  The services an operation reaches through \<open>KernelServices\<close> that are decided
  outside the process (whether a peer takes a reply, what becomes of an input prompt,
  what an interrupt handler returns) are parameters of the record
  \<open>kernel_services\<close>, indexed by the moment of the call.
\<close>

datatype effect =
  Published message
| Replied nat message
| Stderr string
| Failure error
| Prompted bytes message
| InputDone "string result"
| HandlerCalled nat
| Completed nat bool
| Opened nat "string result"
| RouteClosed nat "unit result"

record world =
  draws :: nat
  clock :: nat
  pending_inputs :: "(string, bytes) hash_map"
  trace :: "effect list"

type_synonym ('w, 'a) eng = "'w \<Rightarrow> 'a result \<times> 'w"

section \<open>Sequencing\<close>

text \<open>\<open>bindE m f\<close> is \<open>let a = m?; f(a)\<close>.\<close>

definition returnE :: "'a \<Rightarrow> ('w, 'a) eng" where
  "returnE a w = (Inr a, w)"

definition liftE :: "'a result \<Rightarrow> ('w, 'a) eng" where
  "liftE r w = (r, w)"

definition bindE :: "('w, 'a) eng \<Rightarrow> ('a \<Rightarrow> ('w, 'b) eng) \<Rightarrow> ('w, 'b) eng" where
  "bindE m f w = (case m w of (Inl e, w') \<Rightarrow> (Inl e, w') | (Inr a, w') \<Rightarrow> f a w')"

text \<open>\<open>tryE m\<close> hands the result of \<open>m\<close> to a \<open>match\<close> instead of returning early.\<close>

definition tryE :: "('w, 'a) eng \<Rightarrow> ('w, 'a result) eng" where
  "tryE m w = (case m w of (r, w') \<Rightarrow> (Inr r, w'))"

fun eachE :: "('b \<Rightarrow> ('w, unit) eng) \<Rightarrow> 'b list \<Rightarrow> ('w, unit) eng" where
  "eachE f [] = returnE ()"
| "eachE f (x # xs) = bindE (f x) (\<lambda>_. eachE f xs)"

definition momentE :: "('z world_scheme, nat) eng" where
  "momentE w = (Inr (draws w), w\<lparr>draws := Suc (draws w)\<rparr>)"

definition effectE :: "effect \<Rightarrow> ('z world_scheme, unit) eng" where
  "effectE x w = (Inr (), w\<lparr>trace := trace w @ [x]\<rparr>)"

definition stateE :: "('w, 'w) eng" where
  "stateE w = (Inr w, w)"

definition modifyE :: "('w \<Rightarrow> 'w) \<Rightarrow> ('w, unit) eng" where
  "modifyE f w = (Inr (), f w)"

definition whenE :: "bool \<Rightarrow> ('w, unit) eng \<Rightarrow> ('w, unit) eng" where
  "whenE b m = (if b then m else returnE ())"

section \<open>Services\<close>

record kernel_config =
  iopub_capacity :: nat
  hold_timeout :: nat

text \<open>
  What happens to an input prompt: the execution is cancelled or the peer is lost (with
  the prompt already sent or not), the prompt cannot be sent, the pending entry is
  dropped, or the client answers.
\<close>

datatype input_fate =
  Cancelled bool
| PeerLost bool error
| PromptFailed error
| SenderDropped string
| Answered string

record kernel_services =
  ks_crates :: crates
  ks_session :: session
  ks_connection :: json
  ks_supports_subshells :: bool
  ks_config :: kernel_config
  ks_reply_send :: "nat \<Rightarrow> nat \<Rightarrow> bytes list \<Rightarrow> unit result"
  ks_input_fate :: "nat \<Rightarrow> bytes \<Rightarrow> message \<Rightarrow> input_fate"
  ks_call_handler :: "nat \<Rightarrow> nat \<Rightarrow> unit result"
  ks_flush_queued :: "nat \<Rightarrow> bool"

record inbound =
  message :: message
  reply :: nat
  identity :: bytes

definition wire_result :: "wire_error + 'a \<Rightarrow> 'a result" where
  "wire_result r = (case r of Inl e \<Rightarrow> Inl (from_wire e) | Inr a \<Rightarrow> Inr a)"

definition new_message :: "kernel_services \<Rightarrow> string \<Rightarrow> json \<Rightarrow> message option \<Rightarrow>
    ('z world_scheme, message) eng" where
  "new_message ks mtype body parent =
     bindE momentE (\<lambda>n. returnE (session_message (ks_crates ks) (ks_session ks) n mtype body parent))"

text \<open>
  \<open>Iopub::publish\<close>: the message is encoded first, and a peer that is gone never
  fails the publication.
\<close>

definition publish :: "kernel_services \<Rightarrow> message \<Rightarrow> ('z world_scheme, unit) eng" where
  "publish ks m =
     bindE (liftE (wire_result (encode (ks_crates ks) (ks_session ks) m)))
       (\<lambda>frames. effectE (Published m))"

definition send_iopub :: "kernel_services \<Rightarrow> message \<Rightarrow> string \<Rightarrow> json \<Rightarrow>
    ('z world_scheme, unit) eng" where
  "send_iopub ks parent mtype body = bindE (new_message ks mtype body (Some parent)) (publish ks)"

definition send_reply :: "kernel_services \<Rightarrow> nat \<Rightarrow> message \<Rightarrow> string \<Rightarrow> json \<Rightarrow>
    ('z world_scheme, unit) eng" where
  "send_reply ks sink req mtype body =
     bindE momentE (\<lambda>n.
       let m = session_reply (ks_crates ks) (ks_session ks) n req mtype body in
       bindE (liftE (wire_result (encode (ks_crates ks) (ks_session ks) m))) (\<lambda>frames.
       bindE (effectE (Replied sink m)) (\<lambda>_.
       bindE momentE (\<lambda>n.
         case ks_reply_send ks n sink frames of
           Inr _ \<Rightarrow> returnE ()
         | Inl e \<Rightarrow> whenE (kind e \<noteq> Closed)
             (effectE (Stderr (''reply to disconnected client failed: '' @ show_error e)))))))"

definition status :: "kernel_services \<Rightarrow> message \<Rightarrow> string \<Rightarrow> ('z world_scheme, unit) eng" where
  "status ks parent state =
     send_iopub ks parent ''status'' (JObj [(''execution_state'', JStr state)])"

section \<open>What a client can observe\<close>

text \<open>
  A published message or a reply, without the fields of its header that name the moment
  and the session it was made in.
\<close>

datatype event = Pub message | Rep nat message

definition strip :: "message \<Rightarrow> message" where
  "strip m = m\<lparr>header := filter (\<lambda>e. fst e = ''msg_type'') (header m)\<rparr>"

fun observe :: "effect \<Rightarrow> event list" where
  "observe (Published m) = [Pub (strip m)]"
| "observe (Replied sink m) = [Rep sink (strip m)]"
| "observe _ = []"

definition observed :: "'z world_scheme \<Rightarrow> event list" where
  "observed w = concat (map observe (trace w))"

text \<open>The message of type \<open>t\<close> with content \<open>b\<close> whose parent is \<open>p\<close>.\<close>

definition notice :: "string \<Rightarrow> json \<Rightarrow> message \<Rightarrow> message" where
  "notice t b p = \<lparr>identities = [], header = [(''msg_type'', JStr t)], parent_header = header p,
     metadata = [], content = b, buffers = []\<rparr>"

definition state_notice :: "string \<Rightarrow> message \<Rightarrow> message" where
  "state_notice st p = notice ''status'' (JObj [(''execution_state'', JStr st)]) p"

text \<open>
  \<open>runs m w es r z\<close>: from \<open>w\<close>, the operation ends with result \<open>r\<close>, the
  client observes exactly \<open>es\<close> meanwhile, and the fields beyond the world are
  \<open>z\<close> afterwards.
\<close>

definition runs :: "('z world_scheme, 'a) eng \<Rightarrow> 'z world_scheme \<Rightarrow> event list \<Rightarrow> 'a result \<Rightarrow>
    'z \<Rightarrow> bool" where
  "runs m w es r z \<longleftrightarrow>
     (\<exists>w'. m w = (r, w') \<and> observed w' = observed w @ es \<and> world.more w' = z \<and> clock w' = clock w)"

text \<open>An operation that always succeeds the same way and only sends messages.\<close>

definition emits :: "('z world_scheme, 'a) eng \<Rightarrow> event list \<Rightarrow> 'a \<Rightarrow> bool" where
  "emits m es a \<longleftrightarrow> (\<forall>w. runs m w es (Inr a) (world.more w))"

text \<open>The JSON crate prints every value (its documentation: only foreign types fail).\<close>

definition encodes :: "kernel_services \<Rightarrow> bool" where
  "encodes ks \<longleftrightarrow> prints (ks_crates ks)"

section \<open>Lemmas\<close>

lemma observed_update [simp]:
  "observed (w\<lparr>draws := n\<rparr>) = observed w"
  "observed (w\<lparr>clock := t\<rparr>) = observed w"
  "observed (w\<lparr>pending_inputs := p\<rparr>) = observed w"
  "observed (w\<lparr>trace := trace w @ [x]\<rparr>) = observed w @ observe x"
  by (simp_all add: observed_def)

lemma runs_return [emit_rules]: "runs (returnE a) w [] (Inr a) (world.more w)"
  by (simp add: runs_def returnE_def)

lemma runs_lift: "runs (liftE r) w [] r (world.more w)"
  by (simp add: runs_def liftE_def)

lemma runs_return_eq: "world.more w = z \<Longrightarrow> runs (returnE a) w [] (Inr a) z"
  using runs_return [of a w] by simp

lemma runs_lift_eq: "world.more w = z \<Longrightarrow> runs (liftE r) w [] r z"
  using runs_lift [of r w] by simp

lemma runs_bind:
  assumes "runs m w es (Inr a) z"
    and "\<And>w'. world.more w' = z \<Longrightarrow> clock w' = clock w \<Longrightarrow> runs (f a) w' fs r z'"
  shows "runs (bindE m f) w (es @ fs) r z'"
proof -
  from assms(1) obtain w' where w': "m w = (Inr a, w')" "observed w' = observed w @ es"
    "world.more w' = z" "clock w' = clock w" by (auto simp: runs_def)
  from assms(2) [OF w'(3,4)] w' show ?thesis
    by (auto simp: runs_def bindE_def)
qed

lemma runs_bind_error: "runs m w es (Inl e) z \<Longrightarrow> runs (bindE m f) w es (Inl e) z"
  by (auto simp: runs_def bindE_def)

lemma runs_try: "runs m w es r z \<Longrightarrow> runs (tryE m) w es (Inr r) z"
  by (auto simp: runs_def tryE_def)

lemma emits_return [emit_rules]: "emits (returnE a) [] a"
  by (simp add: emits_def runs_return)

lemma emits_bind:
  assumes "emits m es a" and "emits (f a) fs b"
  shows "emits (bindE m f) (es @ fs) b"
  unfolding emits_def
proof
  fix w :: "'a world_scheme"
  show "runs (bindE m f) w (es @ fs) (Inr b) (world.more w)"
    using assms by (intro runs_bind [of m w es a "world.more w"]) (simp_all add: emits_def, metis)
qed

lemma emits_bind_eq [emit_rules]:
  "emits m es a \<Longrightarrow> emits (f a) fs b \<Longrightarrow> gs = es @ fs \<Longrightarrow> emits (bindE m f) gs b"
  by (simp add: emits_bind)

lemma emits_try [emit_rules]: "emits m es a \<Longrightarrow> emits (tryE m) es (Inr a)"
  by (auto simp: emits_def intro: runs_try)

lemma emits_when [emit_rules]:
  "(b \<Longrightarrow> emits m es ()) \<Longrightarrow> gs = (if b then es else []) \<Longrightarrow> emits (whenE b m) gs ()"
  by (simp add: whenE_def emits_return)

lemma emits_runs: "emits m es a \<Longrightarrow> runs m w es (Inr a) (world.more w)"
  by (simp add: emits_def)

lemma emits_runs_eq: "emits m es a \<Longrightarrow> world.more w = z \<Longrightarrow> runs m w es (Inr a) z"
  by (auto simp: emits_def)

lemma emits_effect [emit_rules]: "emits (effectE x) (observe x) ()"
  by (simp add: emits_def runs_def effectE_def)

lemma emits_each:
  "(\<And>x. x \<in> set xs \<Longrightarrow> emits (f x) (g x) ()) \<Longrightarrow> emits (eachE f xs) (concat (map g xs)) ()"
  by (induction xs) (auto intro!: emit_rules)

lemma strip_session_message:
  "strip (session_message c s n t b (Some p)) = notice t b p"
  by (simp add: strip_def session_message_def notice_def)

lemma encodes_wire: "encodes ks \<Longrightarrow> \<exists>frames. wire_result (encode (ks_crates ks) (ks_session ks) m) = Inr frames"
  using encode_prints [of "ks_crates ks" "ks_session ks" m] by (auto simp: encodes_def wire_result_def)

lemma emits_publish [emit_rules]:
  assumes "encodes ks"
  shows "emits (publish ks m) [Pub (strip m)] ()"
  using encodes_wire [OF assms, of m]
  by (auto simp: emits_def runs_def publish_def bindE_def liftE_def effectE_def)

lemma emits_send_iopub [emit_rules]:
  assumes "encodes ks"
  shows "emits (send_iopub ks p t b) [Pub (notice t b p)] ()"
  unfolding emits_def
proof
  fix w :: "'a world_scheme"
  let ?m = "session_message (ks_crates ks) (ks_session ks) (draws w) t b (Some p)"
  have "runs (publish ks ?m) (w\<lparr>draws := Suc (draws w)\<rparr>) [Pub (notice t b p)] (Inr ()) (world.more w)"
    using emits_runs [OF emits_publish [OF assms, of ?m], of "w\<lparr>draws := Suc (draws w)\<rparr>"]
    by (simp add: strip_session_message)
  then show "runs (send_iopub ks p t b) w [Pub (notice t b p)] (Inr ()) (world.more w)"
    by (simp add: runs_def send_iopub_def new_message_def bindE_def momentE_def returnE_def)
qed

lemma emits_status [emit_rules]:
  "encodes ks \<Longrightarrow> emits (status ks p st) [Pub (state_notice st p)] ()"
  by (simp add: status_def state_notice_def emits_send_iopub)

lemma emits_send_reply [emit_rules]:
  assumes "encodes ks"
  shows "emits (send_reply ks sink req t b) [Rep sink (notice t b req)] ()"
  unfolding emits_def
proof
  fix w :: "'a world_scheme"
  let ?m = "session_reply (ks_crates ks) (ks_session ks) (draws w) req t b"
  obtain frames where "wire_result (encode (ks_crates ks) (ks_session ks) ?m) = Inr frames"
    using encodes_wire [OF assms] by blast
  moreover have "strip ?m = notice t b req"
    by (simp add: session_reply_def strip_session_message)
  ultimately show "runs (send_reply ks sink req t b) w [Rep sink (notice t b req)] (Inr ()) (world.more w)"
    by (auto simp: runs_def send_reply_def bindE_def momentE_def liftE_def effectE_def returnE_def
        whenE_def Let_def observed_def split: sum.splits)
qed

text \<open>After an operation that only sends messages.\<close>

lemma runs_bind_emits:
  assumes "emits m es a"
    and "\<And>w'. world.more w' = world.more w \<Longrightarrow> clock w' = clock w \<Longrightarrow> runs (f a) w' fs r z"
  shows "runs (bindE m f) w (es @ fs) r z"
  by (rule runs_bind [OF emits_runs [OF assms(1)]]) (rule assms(2))

lemma runs_bind_emits_last:
  assumes "emits m es a"
    and "\<And>w'. world.more w' = world.more w \<Longrightarrow> clock w' = clock w \<Longrightarrow> runs (f a) w' [] r z"
  shows "runs (bindE m f) w es r z"
  using runs_bind_emits [of m es a w f "[]" r z] assms by simp

lemma runs_moment:
  "runs (f (draws w)) (w\<lparr>draws := Suc (draws w)\<rparr>) es r z \<Longrightarrow> runs (bindE momentE f) w es r z"
  by (auto simp: runs_def bindE_def momentE_def)

lemma runs_bind_lift:
  "runs (case r of Inl e \<Rightarrow> liftE (Inl e) | Inr a \<Rightarrow> f a) w es s z \<Longrightarrow> runs (bindE (liftE r) f) w es s z"
  by (auto simp: runs_def bindE_def liftE_def split: sum.splits)

lemma emits_obtain:
  assumes "emits m es a"
  obtains w' where "m w = (Inr a, w')" "observed w' = observed w @ es"
    "world.more w' = world.more w" "clock w' = clock w"
  using emits_runs [OF assms, of w] by (auto simp: runs_def)

text \<open>A concrete kernel, on which the hypotheses of the properties can be discharged.\<close>

definition demo_services :: kernel_services where
  "demo_services =
     \<lparr>ks_crates = demo_crates, ks_session = demo_session, ks_connection = JNull,
      ks_supports_subshells = True, ks_config = \<lparr>iopub_capacity = 1, hold_timeout = 10\<rparr>,
      ks_reply_send = (\<lambda>_ _ _. Inr ()), ks_input_fate = (\<lambda>_ _ _. Answered ''yes''),
      ks_call_handler = (\<lambda>_ _. Inr ()), ks_flush_queued = (\<lambda>_. True)\<rparr>"

definition demo_world :: world where
  "demo_world = \<lparr>draws = 0, clock = 0, pending_inputs = [], trace = []\<rparr>"

definition demo_request :: "string \<Rightarrow> json \<Rightarrow> json_map \<Rightarrow> nat \<Rightarrow> inbound" where
  "demo_request t body md sink = \<lparr>message = \<lparr>identities = [''c''],
     header = [(''msg_type'', JStr t), (''msg_id'', JStr (show_nat sink))], parent_header = [],
     metadata = md, content = body, buffers = []\<rparr>, reply = sink, identity = ''c''\<rparr>"

lemma demo_encodes: "encodes demo_services"
  by (simp add: encodes_def prints_def demo_services_def demo_crates_def)

lemma demo_request_simps [simp]:
  "msg_type (message (demo_request t body md sink)) = t"
  "header (message (demo_request t body md sink)) = [(''msg_type'', JStr t), (''msg_id'', JStr (show_nat sink))]"
  "content (message (demo_request t body md sink)) = body" "metadata (message (demo_request t body md sink)) = md"
  "reply (demo_request t body md sink) = sink" "identity (demo_request t body md sink) = ''c''"
  "parent_header (message (demo_request t body md sink)) = []"
  by (simp_all add: demo_request_def msg_type_def)

section \<open>Operations that keep a property of the state\<close>

definition maintains :: "('s \<Rightarrow> bool) \<Rightarrow> ('s, 'a) eng \<Rightarrow> bool" where
  "maintains P m \<longleftrightarrow> (\<forall>s r s'. P s \<longrightarrow> m s = (r, s') \<longrightarrow> P s')"

lemma maintainsI: "(\<And>s r s'. P s \<Longrightarrow> m s = (r, s') \<Longrightarrow> P s') \<Longrightarrow> maintains P m"
  by (auto simp: maintains_def)

lemma maintainsD: "maintains P m \<Longrightarrow> P s \<Longrightarrow> m s = (r, s') \<Longrightarrow> P s'"
  by (auto simp: maintains_def)

lemma maintains_return [keeps]: "maintains P (returnE a)"
  by (simp add: maintains_def returnE_def)

lemma maintains_lift [keeps]: "maintains P (liftE r)"
  by (simp add: maintains_def liftE_def)

lemma maintains_modify: "(\<And>s. P s \<Longrightarrow> P (f s)) \<Longrightarrow> maintains P (modifyE f)"
  by (simp add: maintains_def modifyE_def)

lemma then_maintains:
  assumes "bindE m f s = (r, s')" and first: "\<And>r1 s1. m s = (r1, s1) \<Longrightarrow> P s1"
    and "\<And>a. maintains P (f a)"
  shows "P s'"
proof -
  obtain r1 s1 where m: "m s = (r1, s1)" by fastforce
  then have "P s1" by (rule first)
  with m assms(1) maintainsD [OF assms(3)] show ?thesis
    by (cases r1) (auto simp: bindE_def)
qed

lemma maintains_bind [keeps]:
  "maintains P m \<Longrightarrow> (\<And>a. maintains P (f a)) \<Longrightarrow> maintains P (bindE m f)"
  by (rule maintainsI, erule then_maintains) (auto dest: maintainsD)

lemma maintains_when [keeps]: "maintains P m \<Longrightarrow> maintains P (whenE b m)"
  by (simp add: whenE_def maintains_return)

lemma maintains_each [keeps]: "(\<And>x. maintains P (f x)) \<Longrightarrow> maintains P (eachE f xs)"
  by (induction xs) (auto intro: keeps)

lemma maintains_if [keeps]: "(b \<Longrightarrow> maintains P m) \<Longrightarrow> (\<not> b \<Longrightarrow> maintains P n) \<Longrightarrow> maintains P (if b then m else n)"
  by simp

lemma maintains_case_sum [keeps]:
  "(\<And>e. maintains P (f e)) \<Longrightarrow> (\<And>a. maintains P (g a)) \<Longrightarrow> maintains P (case r of Inl e \<Rightarrow> f e | Inr a \<Rightarrow> g a)"
  by (cases r) simp_all

lemma maintains_case_option [keeps]:
  "maintains P m \<Longrightarrow> (\<And>a. maintains P (g a)) \<Longrightarrow> maintains P (case x of None \<Rightarrow> m | Some a \<Rightarrow> g a)"
  by (cases x) simp_all

lemma maintains_case_list [keeps]:
  "maintains P m \<Longrightarrow> (\<And>y ys. maintains P (g y ys)) \<Longrightarrow> maintains P (case xs of [] \<Rightarrow> m | y # ys \<Rightarrow> g y ys)"
  by (cases xs) simp_all

lemma maintains_try [keeps]: "maintains P m \<Longrightarrow> maintains P (tryE m)"
  by (auto simp: maintains_def tryE_def split: prod.splits)

text \<open>A block that reads the state runs from that state.\<close>

lemma maintains_state:
  "(\<And>s r s'. P s \<Longrightarrow> f s s = (r, s') \<Longrightarrow> P s') \<Longrightarrow> maintains P (bindE stateE f)"
  by (auto simp: maintains_def bindE_def stateE_def)

end
