(* ===== verification/Output.thy ===== *)
theory Output
  imports Effects
begin

text \<open>
  The output side of \<open>src/src/engine.rs\<close>: the stdin service (\<open>Stdin\<close>), the
  conversion of language events into IOPub messages (\<open>publish_event\<close>), and the
  output pump of \<open>KernelServices::output_context\<close>, which joins adjacent writes to the
  same stream within a batch. The lemmas show what a client observes of a pumped run and
  that the cut into batches changes nothing but where stream messages are split.
\<close>

section \<open>Stdin\<close>

definition pendingE :: "((string, bytes) hash_map \<Rightarrow> (string, bytes) hash_map) \<Rightarrow>
    ('z world_scheme, unit) eng" where
  "pendingE f w = (Inr (), w\<lparr>pending_inputs := f (pending_inputs w)\<rparr>)"

definition send_prompt :: "kernel_services \<Rightarrow> bytes \<Rightarrow> message \<Rightarrow> ('z world_scheme, unit) eng" where
  "send_prompt ks ident m =
     bindE (liftE (wire_result (encode (ks_crates ks) (ks_session ks) m)))
       (\<lambda>frames. effectE (Prompted ident m))"

text \<open>The \<open>select!\<close> of \<open>Stdin::request\<close>: cancellation first, then a lost peer, then the answer.\<close>

fun input_outcome :: "kernel_services \<Rightarrow> bytes \<Rightarrow> message \<Rightarrow> input_fate \<Rightarrow>
    ('z world_scheme, string) eng" where
  "input_outcome ks ident m (Cancelled sent) =
     bindE (whenE sent (send_prompt ks ident m)) (\<lambda>_. liftE (Inl interrupted))"
| "input_outcome ks ident m (PeerLost sent e) =
     bindE (whenE sent (send_prompt ks ident m))
       (\<lambda>_. liftE (Inl (context_err e ''waiting for stdin'')))"
| "input_outcome ks ident m (PromptFailed e) =
     bindE (liftE (wire_result (encode (ks_crates ks) (ks_session ks) m))) (\<lambda>_. liftE (Inl e))"
| "input_outcome ks ident m (SenderDropped e) =
     bindE (send_prompt ks ident m) (\<lambda>_. liftE (Inl (from_recv e)))"
| "input_outcome ks ident m (Answered v) =
     bindE (send_prompt ks ident m) (\<lambda>_. liftE (Inr v))"

definition stdin_request :: "kernel_services \<Rightarrow> bytes \<Rightarrow> message \<Rightarrow> string \<Rightarrow> bool \<Rightarrow>
    ('z world_scheme, string) eng" where
  "stdin_request ks ident parent prompt password =
     bindE (new_message ks ''input_request''
              (JObj [(''prompt'', JStr prompt), (''password'', JBool password)]) (Some parent)) (\<lambda>m.
     bindE (pendingE (hm_insert (msg_id m) ident)) (\<lambda>_.
     bindE momentE (\<lambda>n.
     bindE (tryE (input_outcome ks ident m (ks_input_fate ks n ident m))) (\<lambda>r.
     bindE (pendingE (hm_remove (msg_id m))) (\<lambda>_.
     liftE r)))))"

text \<open>
  The task that serves the stdin socket: an \<open>input_reply\<close> completes the request its
  parent header names or, when that is not pending, one pending for the same client.
\<close>

definition reply_parent :: "inbound \<Rightarrow> string" where
  "reply_parent ib = field_or as_str (map_of (parent_header (message ib)) ''msg_id'') ''''"

definition input_reply_key :: "(string, bytes) hash_map \<Rightarrow> inbound \<Rightarrow> string option" where
  "input_reply_key pending ib =
     (if hm_contains_key pending (reply_parent ib) then Some (reply_parent ib)
      else map_option fst (find (\<lambda>(_, ident). ident = identity ib) pending))"

definition input_reply :: "(string, bytes) hash_map \<Rightarrow> inbound \<Rightarrow>
    (string \<times> string) option \<times> (string, bytes) hash_map" where
  "input_reply pending ib =
     (if msg_type (message ib) \<noteq> ''input_reply'' then (None, pending)
      else case input_reply_key pending ib of
             None \<Rightarrow> (None, pending)
           | Some k \<Rightarrow> (Some (k, str_field (content (message ib)) ''value'' ''''), hm_remove k pending))"

section \<open>Events\<close>

definition display_message :: "json \<Rightarrow> string \<times> json" where
  "display_message event =
     (if (case json_get event ''type'' of Some v \<Rightarrow> as_str v | None \<Rightarrow> None) = Some ''clear_output''
      then (''clear_output'', JObj [(''wait'', JBool (bool_field event ''wait'' False))])
      else (if bool_field event ''update'' False then ''update_display_data'' else ''display_data'',
            JObj [(''data'', case json_get event ''data'' of Some v \<Rightarrow> v | None \<Rightarrow> JObj []),
                  (''metadata'', case json_get event ''metadata'' of Some v \<Rightarrow> v | None \<Rightarrow> JObj []),
                  (''transient'', case json_get event ''transient'' of Some v \<Rightarrow> v | None \<Rightarrow> JObj [])]))"

fun publish_event :: "kernel_services \<Rightarrow> message \<Rightarrow> language_event \<Rightarrow> bool \<Rightarrow>
    ('z world_scheme, unit) eng" where
  "publish_event ks req (Stream name text) silent =
     whenE (\<not> silent) (send_iopub ks req ''stream'' (JObj [(''name'', JStr name), (''text'', JStr text)]))"
| "publish_event ks req (Display event bufs) silent =
     whenE (\<not> silent)
       (let (mtype, body) = display_message event in
        bindE (new_message ks mtype body (Some req)) (\<lambda>m. publish ks (m\<lparr>buffers := bufs\<rparr>)))"
| "publish_event ks req (Message mtype body md ident bufs) silent =
     whenE (\<not> silent)
       (bindE (new_message ks mtype body (Some req)) (\<lambda>m.
          publish ks (m\<lparr>metadata := (case as_object md of Some ob \<Rightarrow> ob | None \<Rightarrow> []),
                        identities := (case ident of Some i \<Rightarrow> [i] | None \<Rightarrow> []),
                        buffers := bufs\<rparr>)))"

section \<open>The output pump\<close>

text \<open>
  The inner \<open>while matches!(messages.peek(), ...)\<close> loop: a stream write takes in the
  writes to the same stream that follow it directly.
\<close>

fun absorb :: "string \<Rightarrow> string \<Rightarrow> context_message list \<Rightarrow> string \<times> context_message list" where
  "absorb name text (Event (Stream name' text') # ms) =
     (if name' = name then absorb name (text @ text') ms
      else (text, Event (Stream name' text') # ms))"
| "absorb name text ms = (text, ms)"

fun next_message :: "context_message \<Rightarrow> context_message list \<Rightarrow> context_message \<times> context_message list"
where
  "next_message (Event (Stream name text)) ms =
     (let joint = absorb name text ms in (Event (Stream name (fst joint)), snd joint))"
| "next_message m ms = (m, ms)"

text \<open>One message: published, acknowledged, or asked for on stdin.\<close>

fun deliver :: "kernel_services \<Rightarrow> message \<Rightarrow> bytes option \<Rightarrow> bool \<Rightarrow> context_message \<Rightarrow>
    ('z world_scheme, unit) eng" where
  "deliver ks req ident silent (Event event) = publish_event ks req event silent"
| "deliver ks req ident silent Flush = returnE ()"
| "deliver ks req ident silent (Input prompt password) =
     bindE (case ident of
              Some i \<Rightarrow> tryE (stdin_request ks i req prompt password)
            | None \<Rightarrow> returnE (Inl (error_new Unavailable ''input is unavailable outside execution'')))
       (\<lambda>r. effectE (InputDone r))"

lemma absorb_length [simp]: "length (snd (absorb nm t ms)) \<le> length ms"
  by (induction nm t ms rule: absorb.induct) auto

lemma next_message_length: "length (snd (next_message m ms)) \<le> length ms"
  by (cases "(m, ms)" rule: next_message.cases) (auto simp: Let_def)

function pump_batch :: "kernel_services \<Rightarrow> message \<Rightarrow> bytes option \<Rightarrow> bool \<Rightarrow> context_message list \<Rightarrow>
    ('z world_scheme, unit) eng" where
  "pump_batch ks req ident silent [] = returnE ()"
| "pump_batch ks req ident silent (m # ms) =
     bindE (deliver ks req ident silent (fst (next_message m ms)))
       (\<lambda>_. pump_batch ks req ident silent (snd (next_message m ms)))"
  by pat_completeness auto
termination
  by (relation "measure (\<lambda>(_, _, _, _, ms). length ms)")
    (auto simp: next_message_length less_Suc_eq_le)

definition pump :: "kernel_services \<Rightarrow> message \<Rightarrow> bytes option \<Rightarrow> bool \<Rightarrow> context_message list list \<Rightarrow>
    ('z world_scheme, unit) eng" where
  "pump ks req ident silent batches = eachE (pump_batch ks req ident silent) batches"

text \<open>
  The context handed to the language, and the pump with the flush that follows it. A pump
  that fails reports to the kernel and drops its channel, so that the flush ends in
  \<open>Closed\<close>: by the send, or, where the marker was already queued, by the dropped
  acknowledgement.
\<close>

definition output_context :: "kernel_services \<Rightarrow> message \<Rightarrow> bytes option \<Rightarrow> u64 \<Rightarrow> execution_context"
where
  "output_context ks req ident execution_count =
     (let execution = (ident \<noteq> None) in
      \<lparr>ctx_subshells =
         (if execution then Some (field_or as_str (map_of (header req) ''session'') '''') else None),
       ctx_parent = JObj [(''header'', JObj (header req)), (''parent_header'', JObj (parent_header req)),
                          (''metadata'', JObj (metadata req)), (''content'', content req)],
       ctx_allow_stdin = (execution \<and> bool_field (content req) ''allow_stdin'' True),
       ctx_execution_count = execution_count\<rparr>)"

definition pump_and_flush :: "kernel_services \<Rightarrow> message \<Rightarrow> bytes option \<Rightarrow> bool \<Rightarrow>
    context_message list list \<Rightarrow> ('z world_scheme, unit result) eng" where
  "pump_and_flush ks req ident silent batches =
     bindE (tryE (pump ks req ident silent batches)) (\<lambda>r.
       case r of
         Inr _ \<Rightarrow> returnE (Inr ())
       | Inl e \<Rightarrow>
           bindE (effectE (Failure e)) (\<lambda>_.
           bindE momentE (\<lambda>n.
           returnE (Inl (if ks_flush_queued ks n then from_recv ''channel closed'' else from_send)))))"

section \<open>What the pump publishes\<close>

text \<open>A batch after joining: what \<open>pump_batch\<close> delivers, in order.\<close>

function joined :: "context_message list \<Rightarrow> context_message list" where
  "joined [] = []"
| "joined (m # ms) = fst (next_message m ms) # joined (snd (next_message m ms))"
  by pat_completeness auto
termination
  by (relation "measure length") (auto simp: next_message_length less_Suc_eq_le)

fun event_notice :: "message \<Rightarrow> language_event \<Rightarrow> message" where
  "event_notice req (Stream name text) =
     notice ''stream'' (JObj [(''name'', JStr name), (''text'', JStr text)]) req"
| "event_notice req (Display event bufs) =
     (notice (fst (display_message event)) (snd (display_message event)) req)\<lparr>buffers := bufs\<rparr>"
| "event_notice req (Message mtype body md ident bufs) =
     (notice mtype body req)\<lparr>metadata := (case as_object md of Some ob \<Rightarrow> ob | None \<Rightarrow> []),
       identities := (case ident of Some i \<Rightarrow> [i] | None \<Rightarrow> []), buffers := bufs\<rparr>"

fun output_events :: "message \<Rightarrow> bool \<Rightarrow> context_message \<Rightarrow> event list" where
  "output_events req silent (Event e) = (if silent then [] else [Pub (event_notice req e)])"
| "output_events req silent _ = []"

definition batch_events :: "message \<Rightarrow> bool \<Rightarrow> context_message list \<Rightarrow> event list" where
  "batch_events req silent ms = concat (map (output_events req silent) (joined ms))"

section \<open>Lemmas\<close>

lemma strip_update [simp]:
  "strip (m\<lparr>buffers := b\<rparr>) = (strip m)\<lparr>buffers := b\<rparr>"
  "strip (m\<lparr>metadata := d\<rparr>) = (strip m)\<lparr>metadata := d\<rparr>"
  "strip (m\<lparr>identities := i\<rparr>) = (strip m)\<lparr>identities := i\<rparr>"
  by (simp_all add: strip_def)

lemma emits_publish_new:
  assumes "encodes ks" and "\<And>n. strip (f (session_message (ks_crates ks) (ks_session ks) n t b (Some p))) = v"
  shows "emits (bindE (new_message ks t b (Some p)) (\<lambda>m. publish ks (f m))) [Pub v] ()"
  unfolding emits_def
proof
  fix w :: "'a world_scheme"
  let ?m = "f (session_message (ks_crates ks) (ks_session ks) (draws w) t b (Some p))"
  from emits_runs [OF emits_publish [OF assms(1), of ?m], of "w\<lparr>draws := Suc (draws w)\<rparr>"]
  show "runs (bindE (new_message ks t b (Some p)) (\<lambda>m. publish ks (f m))) w [Pub v] (Inr ()) (world.more w)"
    by (simp add: assms(2) runs_def new_message_def bindE_def momentE_def returnE_def)
qed

lemma emits_publish_event [emit_rules]:
  assumes "encodes ks"
  shows "emits (publish_event ks req e silent) (output_events req silent (Event e)) ()"
proof (cases e)
  case (Stream nm t)
  then show ?thesis using assms by (auto intro!: emit_rules)
next
  case (Display event bufs)
  then show ?thesis using assms
    by (auto simp: case_prod_beta strip_session_message intro!: emits_when emits_publish_new)
next
  case (Message t b md i bufs)
  then show ?thesis using assms
    by (auto simp: strip_session_message intro!: emits_when emits_publish_new)
qed

text \<open>An input request always ends, whatever becomes of the prompt, and publishes nothing.\<close>

lemma input_outcome_silent:
  "\<exists>r w'. input_outcome ks i m fate w = (r, w') \<and> observed w' = observed w \<and>
     world.more w' = world.more w \<and> clock w' = clock w \<and> pending_inputs w' = pending_inputs w"
  by (cases fate)
    (auto simp: bindE_def liftE_def whenE_def returnE_def send_prompt_def effectE_def observed_def
      split: sum.splits)

lemma stdin_request_ends:
  "\<exists>r w' id. stdin_request ks i req p pw w = (r, w') \<and> observed w' = observed w \<and>
     world.more w' = world.more w \<and> clock w' = clock w \<and>
     pending_inputs w' = hm_remove id (hm_insert id i (pending_inputs w)) \<and>
     id = uuid_v4 (ks_crates ks) (draws w)"
proof -
  let ?m = "session_message (ks_crates ks) (ks_session ks) (draws w) ''input_request''
      (JObj [(''prompt'', JStr p), (''password'', JBool pw)]) (Some req)"
  let ?w = "w\<lparr>pending_inputs := hm_insert (uuid_v4 (ks_crates ks) (draws w)) i (pending_inputs w),
      draws := Suc (Suc (draws w))\<rparr>"
  obtain r w' where "input_outcome ks i ?m (ks_input_fate ks (Suc (draws w)) i ?m) ?w = (r, w')"
    and "observed w' = observed ?w" "world.more w' = world.more ?w" "clock w' = clock ?w"
      "pending_inputs w' = pending_inputs ?w"
    using input_outcome_silent by blast
  then show ?thesis
    by (auto simp: stdin_request_def new_message_def bindE_def momentE_def returnE_def pendingE_def
        tryE_def liftE_def)
qed

lemma emits_deliver [emit_rules]:
  assumes "encodes ks"
  shows "emits (deliver ks req ident silent m) (output_events req silent m) ()"
proof (cases m)
  case (Event e)
  then show ?thesis using emits_publish_event [OF assms, of req e silent] by simp
next
  case Flush
  then show ?thesis by (simp add: emits_return)
next
  case (Input p pw)
  show ?thesis
  proof (cases ident)
    case None
    with Input show ?thesis by (auto intro!: emit_rules)
  next
    case (Some i)
    have "runs (deliver ks req ident silent m) w [] (Inr ()) (world.more w)" for w :: "'a world_scheme"
    proof -
      obtain r w' where "stdin_request ks i req p pw w = (r, w')" "observed w' = observed w"
        "world.more w' = world.more w" "clock w' = clock w"
        using stdin_request_ends [of ks i req p pw w] by blast
      with Some Input show ?thesis
        by (auto simp: runs_def bindE_def tryE_def effectE_def)
    qed
    with Input show ?thesis by (simp add: emits_def)
  qed
qed

lemma emits_pump_batch [emit_rules]:
  "encodes ks \<Longrightarrow> emits (pump_batch ks req ident silent ms) (batch_events req silent ms) ()"
proof (induction ks req ident silent ms rule: pump_batch.induct)
  case (1 ks req ident silent)
  then show ?case by (simp add: batch_events_def emits_return)
next
  case (2 ks req ident silent m ms)
  then show ?case
    by (auto simp: batch_events_def intro!: emit_rules)
qed

lemma emits_pump [emit_rules]:
  "encodes ks \<Longrightarrow>
   emits (pump ks req ident silent batches) (concat (map (batch_events req silent) batches)) ()"
  unfolding pump_def by (rule emits_each) (rule emits_pump_batch)

lemma emits_pump_and_flush [emit_rules]:
  "encodes ks \<Longrightarrow>
   emits (pump_and_flush ks req ident silent batches)
     (concat (map (batch_events req silent) batches)) (Inr ())"
  unfolding pump_and_flush_def by (rule emits_bind_eq, rule emits_try, erule emits_pump)
    (auto intro!: emit_rules)

section \<open>Joining\<close>

text \<open>Putting one message in front of a joined list.\<close>

fun join_front :: "context_message \<Rightarrow> context_message list \<Rightarrow> context_message list" where
  "join_front (Event (Stream nm t)) (Event (Stream nm' t') # ms) =
     (if nm' = nm then Event (Stream nm (t @ t')) # ms
      else Event (Stream nm t) # Event (Stream nm' t') # ms)"
| "join_front m ms = m # ms"

text \<open>Everything written to one stream, in order.\<close>

fun stream_text :: "string \<Rightarrow> context_message list \<Rightarrow> string" where
  "stream_text nm [] = []"
| "stream_text nm (Event (Stream nm' t) # ms) = (if nm' = nm then t else []) @ stream_text nm ms"
| "stream_text nm (m # ms) = stream_text nm ms"

lemma join_front_assoc:
  "join_front (Event (Stream nm t)) (join_front (Event (Stream nm t')) ms) =
   join_front (Event (Stream nm (t @ t'))) ms"
  by (cases "(Event (Stream nm t'), ms)" rule: join_front.cases) auto

lemma joined_absorb:
  "Event (Stream nm (fst (absorb nm t ms))) # joined (snd (absorb nm t ms)) =
   join_front (Event (Stream nm t)) (joined ms)"
proof (induction ms arbitrary: t)
  case (Cons m ms)
  show ?case
  proof (cases "\<exists>t'. m = Event (Stream nm t')")
    case True
    then obtain t' where m: "m = Event (Stream nm t')" by blast
    have "joined (m # ms) = join_front m (joined ms)"
      using Cons.IH [of t'] by (simp add: m Let_def)
    with Cons.IH [of "t @ t'"] show ?thesis
      by (simp add: m join_front_assoc)
  next
    case False
    then have "absorb nm t (m # ms) = (t, m # ms)"
      by (cases "(nm, t, m # ms)" rule: absorb.cases) auto
    moreover obtain m' ms' where j: "joined (m # ms) = m' # ms'" and "\<nexists>t'. m' = Event (Stream nm t')"
      using False by (cases "(m, ms)" rule: next_message.cases) (auto simp: Let_def)
    ultimately show ?thesis
      by (cases "(Event (Stream nm t), m' # ms')" rule: join_front.cases) auto
  qed
qed simp

lemma joined_Cons: "joined (m # ms) = join_front m (joined ms)"
  using joined_absorb by (cases "(m, ms)" rule: next_message.cases) (auto simp: Let_def)

lemma joined_append: "joined (xs @ ys) = foldr join_front xs (joined ys)"
  by (induction xs) (simp_all add: joined_Cons del: joined.simps(2))

lemma foldr_join_front:
  "foldr join_front (join_front m zs) k = join_front m (foldr join_front zs k)"
  by (cases "(m, zs)" rule: join_front.cases) (auto simp: join_front_assoc)

lemma joined_joined_append: "joined (joined xs @ ys) = joined (xs @ ys)"
proof (induction xs)
  case (Cons m xs)
  then show ?case
    by (simp add: joined_Cons joined_append foldr_join_front del: joined.simps(2))
qed simp

lemma joined_idem: "joined (joined xs) = joined xs"
  using joined_joined_append [of xs "[]"] by simp

lemma joined_append_joined: "joined (xs @ joined ys) = joined (xs @ ys)"
  by (simp add: joined_append joined_idem)

lemma joined_concat: "joined (concat (map joined bs)) = joined (concat bs)"
proof (induction bs)
  case (Cons b bs)
  have "joined (concat (map joined (b # bs))) = joined (b @ concat (map joined bs))"
    by (simp add: joined_joined_append)
  also have "\<dots> = joined (b @ joined (concat bs))"
    by (metis Cons.IH joined_append_joined)
  finally show ?case by (simp add: joined_append_joined)
qed simp

lemma stream_text_join_front:
  "stream_text nm (join_front m ms) = stream_text nm (m # ms)"
  by (cases "(m, ms)" rule: join_front.cases) auto

lemma stream_text_append: "stream_text nm (xs @ ys) = stream_text nm xs @ stream_text nm ys"
  by (induction nm xs rule: stream_text.induct) auto

lemma stream_text_Cons_cong:
  "stream_text nm xs = stream_text nm ys \<Longrightarrow> stream_text nm (m # xs) = stream_text nm (m # ys)"
  using stream_text_append [of nm "[m]" xs] stream_text_append [of nm "[m]" ys] by simp

lemma stream_text_joined: "stream_text nm (joined ms) = stream_text nm ms"
proof (induction ms)
  case (Cons m ms)
  have "stream_text nm (joined (m # ms)) = stream_text nm (m # joined ms)"
    by (simp add: joined_Cons stream_text_join_front del: joined.simps(2))
  also have "\<dots> = stream_text nm (m # ms)"
    by (rule stream_text_Cons_cong) (rule Cons.IH)
  finally show ?case .
qed simp

lemma stream_text_concat: "stream_text nm (concat (map joined bs)) = stream_text nm (concat bs)"
  by (induction bs) (simp_all add: stream_text_append stream_text_joined)

section \<open>Properties\<close>

text \<open>
  C11. The output pump publishes what the language sent, in order and under its request,
  whatever the batches: it succeeds, its publications are those of some list that joins to
  the same list as the messages themselves (so two cuts of the same messages differ only
  in where a stream message is split), and the text of every stream is kept whole.
\<close>

theorem pump_preserves_output:
  assumes "encodes ks"
  shows "\<exists>ms. emits (pump ks req ident silent bs) (concat (map (output_events req silent) ms)) () \<and>
     joined ms = joined (concat bs) \<and> (\<forall>nm. stream_text nm ms = stream_text nm (concat bs))"
proof (intro exI conjI allI)
  have "concat (map (batch_events req silent) bs) =
      concat (map (output_events req silent) (concat (map joined bs)))"
    by (induction bs) (simp_all add: batch_events_def)
  with emits_pump [OF assms, of req ident silent bs]
  show "emits (pump ks req ident silent bs)
      (concat (map (output_events req silent) (concat (map joined bs)))) ()" by simp
qed (rule joined_concat, rule stream_text_concat)

theorem pump_preserves_output_witness:
  "\<exists>ms. emits (pump demo_services default_message None False
       [[Event (Stream ''stdout'' ''a'')], [Event (Stream ''stdout'' ''b''), Flush]] :: (world, unit) eng)
     (concat (map (output_events default_message False) ms)) () \<and> stream_text ''stdout'' ms = ''ab''"
  using pump_preserves_output [OF demo_encodes, of default_message None False
      "[[Event (Stream ''stdout'' ''a'')], [Event (Stream ''stdout'' ''b''), Flush]]"] by auto

text \<open>
  A pending input lives exactly as long as its request. Whether the prompt is
  answered, the client is lost, the execution is cancelled or the prompt cannot be sent,
  \<open>Stdin::request\<close> returns and, when its message id was not pending before,
  leaves the pending map with the entries it had.
\<close>

theorem pending_input_lifetime:
  assumes "hm_get (pending_inputs w) (uuid_v4 (ks_crates ks) (draws w)) = None"
  shows "\<exists>r w'. stdin_request ks i req p pw w = (r, w') \<and>
     hm_get (pending_inputs w') = hm_get (pending_inputs w)"
proof -
  obtain r w' where "stdin_request ks i req p pw w = (r, w')"
    and "pending_inputs w' = hm_remove (uuid_v4 (ks_crates ks) (draws w))
      (hm_insert (uuid_v4 (ks_crates ks) (draws w)) i (pending_inputs w))"
    using stdin_request_ends [of ks i req p pw w] by blast
  moreover from this(2) have "hm_get (pending_inputs w') = hm_get (pending_inputs w)"
    using hm.rem_ins_cancel [OF assms] by simp
  ultimately show ?thesis by blast
qed

theorem pending_input_lifetime_witness:
  "\<exists>r w'. stdin_request demo_services ''c'' default_message ''name: '' False demo_world = (r, w') \<and>
     hm_get (pending_inputs w') = hm_get (pending_inputs demo_world)"
  by (rule pending_input_lifetime) (simp add: demo_world_def)

text \<open>
  An \<open>input_reply\<close> completes at most one pending input: the one its parent
  header names when that is pending, and otherwise only one of the client that sent it.
  Every other pending input stays.
\<close>

theorem input_reply_routing:
  assumes "input_reply pending ib = (completed, pending')"
  shows "(completed = None \<longrightarrow> pending' = pending) \<and>
    (\<forall>k v. completed = Some (k, v) \<longrightarrow>
       hm_contains_key pending k \<and> \<not> hm_contains_key pending' k \<and>
       (\<forall>l. l \<noteq> k \<longrightarrow> hm_get pending' l = hm_get pending l) \<and>
       (if hm_contains_key pending (reply_parent ib) then k = reply_parent ib
        else (k, identity ib) \<in> set pending))"
proof -
  have key: "hm_contains_key pending k \<and>
      (if hm_contains_key pending (reply_parent ib) then k = reply_parent ib
       else (k, identity ib) \<in> set pending)"
    if "input_reply_key pending ib = Some k" for k
  proof (cases "hm_contains_key pending (reply_parent ib)")
    case True
    with that show ?thesis by (simp add: input_reply_key_def)
  next
    case False
    with that have "(k, identity ib) \<in> set pending"
      by (auto simp: input_reply_key_def dest: find_SomeD)
    with False show ?thesis by (force simp: hm_contains_iff)
  qed
  show ?thesis
  proof (cases "msg_type (message ib) = ''input_reply'' \<and> input_reply_key pending ib \<noteq> None")
    case True
    then obtain k where k: "input_reply_key pending ib = Some k" by blast
    with True assms have "completed = Some (k, str_field (content (message ib)) ''value'' '''')"
      "pending' = hm_remove k pending" by (auto simp: input_reply_def)
    with key [OF k] show ?thesis
      by (simp add: hm_contains_key_def hm_get_remove)
  next
    case False
    with assms show ?thesis by (auto simp: input_reply_def split: if_splits)
  qed
qed

theorem input_reply_routing_witness:
  "input_reply [(''p'', ''c''), (''q'', ''d'')] (demo_request ''input_reply'' (JObj [(''value'', JStr ''yes'')]) [] 0) =
     (Some (''p'', ''yes''), [(''q'', ''d'')]) \<and>
   hm_get [(''q'', ''d'')] ''q'' = hm_get [(''p'', ''c''), (''q'', ''d'')] ''q''"
proof
  show reply: "input_reply [(''p'', ''c''), (''q'', ''d'')]
      (demo_request ''input_reply'' (JObj [(''value'', JStr ''yes'')]) [] 0) = (Some (''p'', ''yes''), [(''q'', ''d'')])"
    by (simp add: input_reply_def input_reply_key_def reply_parent_def hm_contains_key_def hm_remove_def hm_get_def)
  show "hm_get [(''q'', ''d'')] ''q'' = hm_get [(''p'', ''c''), (''q'', ''d'')] ''q''"
    using input_reply_routing [OF reply] by simp
qed


end
