(* ===== verification/Requests.thy ===== *)
theory Requests
  imports Output
begin

text \<open>
  The request handlers of \<open>src/src/engine.rs\<close> that work on one message: the error
  replies, the execution of a cell and the task around it (\<open>execute\<close>,
  \<open>run_execution\<close>), the handlers of the other shell requests
  (\<open>handle_shell\<close>), and the replies to aborted, interrupted and held executions.
  The lemmas give the exact sequence of messages a client observes for each.
\<close>

record shell_services =
  svc_language :: language
  svc_shared :: kernel_services

record queue_item =
  priority :: f64
  item_order :: u64
  item_inbound :: inbound

datatype shell_outcome = Continue | Shutdown

record execution_done =
  failed :: bool
  stop_on_error :: bool

section \<open>Error replies\<close>

definition required_fields :: "string \<Rightarrow> string list" where
  "required_fields t =
     (if t = ''execute_request'' \<or> t = ''is_complete_request'' then [''code'']
      else if t = ''complete_request'' \<or> t = ''inspect_request'' then [''code'', ''cursor_pos'']
      else if t = ''history_request'' then [''hist_access_type'']
      else [])"

definition missing_fields :: "message \<Rightarrow> string list" where
  "missing_fields req =
     filter (\<lambda>k. json_get (content req) k = None) (required_fields (msg_type req))"

definition reply_type :: "string \<Rightarrow> string" where
  "reply_type t = str_replace ''_request'' ''_reply'' t"

definition error_content :: "message \<Rightarrow> u64 \<Rightarrow> string \<Rightarrow> string \<Rightarrow> json" where
  "error_content req execution_count en ev =
     JObj (obj_extend
       [(''status'', JStr ''error''), (''ename'', JStr en), (''evalue'', JStr ev), (''traceback'', JArr [])]
       (if msg_type req = ''execute_request'' then
          [(''execution_count'', jnat execution_count), (''user_expressions'', JObj []),
           (''payload'', JArr [])]
        else if msg_type req = ''complete_request'' then
          [(''matches'', JArr []), (''cursor_start'', jnat 0), (''cursor_end'', jnat 0),
           (''metadata'', JObj [])]
        else if msg_type req = ''inspect_request'' then
          [(''found'', JBool False), (''data'', JObj []), (''metadata'', JObj [])]
        else if msg_type req = ''history_request'' then [(''history'', JArr [])]
        else if msg_type req = ''is_complete_request'' then [(''indent'', JStr '''')]
        else []))"

definition reply_error :: "kernel_services \<Rightarrow> message \<Rightarrow> nat \<Rightarrow> json \<Rightarrow> ('z world_scheme, unit) eng" where
  "reply_error ks req sink body =
     bindE (whenE (msg_type req = ''execute_request'')
              (bindE (status ks req ''busy'') (\<lambda>_. send_iopub ks req ''error'' body))) (\<lambda>_.
     bindE (send_reply ks sink req (reply_type (msg_type req)) body) (\<lambda>_.
     whenE (msg_type req = ''execute_request'') (status ks req ''idle'')))"

definition reply_missing :: "u64 \<Rightarrow> kernel_services \<Rightarrow> message \<Rightarrow> nat \<Rightarrow> string list \<Rightarrow>
    ('z world_scheme, unit) eng" where
  "reply_missing execution_count ks req sink missing =
     reply_error ks req sink
       (error_content req execution_count ''MissingField''
          (''missing required fields: '' @ str_join '', '' missing))"

section \<open>Executing a cell\<close>

definition to_execute_request :: "json \<Rightarrow> execute_request" where
  "to_execute_request body =
     \<lparr>er_code = str_field body ''code'' '''',
      er_silent = bool_field body ''silent'' False,
      er_store_history = bool_field body ''store_history'' True,
      er_user_expressions = (case json_get body ''user_expressions'' of Some v \<Rightarrow> v | None \<Rightarrow> JObj []),
      er_allow_stdin = bool_field body ''allow_stdin'' True\<rparr>"

definition input_content :: "string \<Rightarrow> u64 \<Rightarrow> json" where
  "input_content code execution_count =
     JObj [(''code'', JStr code), (''execution_count'', jnat execution_count)]"

text \<open>The end of \<open>execute\<close>: the result or the error of the outcome, and the reply content.\<close>

definition finish_outcome :: "kernel_services \<Rightarrow> message \<Rightarrow> bool \<Rightarrow> u64 \<Rightarrow> execute_outcome \<Rightarrow>
    ('z world_scheme, json \<times> bool) eng" where
  "finish_outcome ks req silent execution_count out =
     (case out_error out of
        Some err \<Rightarrow>
          let flds = [(''ename'', JStr (ename err)), (''evalue'', JStr (evalue err)),
                      (''traceback'', JArr (map JStr (traceback err)))] in
          bindE (send_iopub ks req ''error'' (JObj flds)) (\<lambda>_.
          returnE (JObj ([(''status'', JStr ''error''), (''execution_count'', jnat execution_count)] @ flds),
                   True))
      | None \<Rightarrow>
          bindE (case out_result out of
                   Some v \<Rightarrow> whenE (\<not> silent) (send_iopub ks req ''execute_result''
                      (JObj [(''execution_count'', jnat execution_count), (''data'', v),
                             (''metadata'', out_result_metadata out)]))
                 | None \<Rightarrow> returnE ()) (\<lambda>_.
          returnE (JObj [(''status'', JStr ''ok''), (''execution_count'', jnat execution_count),
                         (''user_expressions'', out_user_expressions out),
                         (''payload'', out_payload out)], False)))"

definition execute :: "shell_services \<Rightarrow> bytes \<Rightarrow> message \<Rightarrow> execute_request \<Rightarrow> u64 \<Rightarrow>
    ('z world_scheme, json \<times> bool) eng" where
  "execute svc ident req ex execution_count =
     (let ks = svc_shared svc; silent = er_silent ex in
      bindE (status ks req ''busy'') (\<lambda>_.
      bindE (whenE (\<not> silent)
               (send_iopub ks req ''execute_input'' (input_content (er_code ex) execution_count))) (\<lambda>_.
      bindE momentE (\<lambda>n.
      let (batches, outcome) =
            lang_execute (svc_language svc) n ex (output_context ks req (Some ident) execution_count) in
      bindE (pump_and_flush ks req (Some ident) silent batches) (\<lambda>flushed.
      bindE (liftE outcome) (\<lambda>out.
      bindE (liftE flushed) (\<lambda>_.
      finish_outcome ks req silent execution_count out)))))))"

definition report_failure :: "shell_services \<Rightarrow> message \<Rightarrow> nat \<Rightarrow> error \<Rightarrow> u64 \<Rightarrow>
    ('z world_scheme, unit) eng" where
  "report_failure svc req sink e execution_count =
     (let ks = svc_shared svc;
          en = (if kind e = Interrupted then ''KeyboardInterrupt'' else ''KernelError'');
          body = error_content req execution_count en (show_error e) in
      bindE (whenE (msg_type req = ''execute_request'') (send_iopub ks req ''error'' body)) (\<lambda>_.
      bindE (if ends_with (msg_type req) ''_request''
             then send_reply ks sink req (reply_type (msg_type req)) body
             else effectE (Stderr (msg_type req @ '' failed: '' @ show_error e))) (\<lambda>_.
      status ks req ''idle'')))"

definition run_execution :: "shell_services \<Rightarrow> inbound \<Rightarrow> execute_request \<Rightarrow> u64 \<Rightarrow>
    ('z world_scheme, execution_done) eng" where
  "run_execution svc ib ex execution_count =
     (let req = message ib; stop = bool_field (content req) ''stop_on_error'' True in
      bindE (tryE (execute svc (identity ib) req ex execution_count)) (\<lambda>r.
      case r of
        Inr (body, fld) \<Rightarrow>
          bindE (send_reply (svc_shared svc) (reply ib) req ''execute_reply'' body) (\<lambda>_.
          bindE (status (svc_shared svc) req ''idle'') (\<lambda>_.
          returnE \<lparr>failed = fld, stop_on_error = stop\<rparr>))
      | Inl e \<Rightarrow>
          bindE (report_failure svc req (reply ib) e execution_count) (\<lambda>_.
          if kind e = Closed then liftE (Inl e)
          else returnE \<lparr>failed = True, stop_on_error = stop\<rparr>)))"

section \<open>Executions that do not run\<close>

definition aborted_content :: "u64 \<Rightarrow> json" where
  "aborted_content execution_count =
     JObj [(''status'', JStr ''aborted''), (''execution_count'', jnat execution_count),
           (''user_expressions'', JObj []), (''payload'', JArr [])]"

definition abort_execute :: "u64 \<Rightarrow> kernel_services \<Rightarrow> inbound \<Rightarrow> ('z world_scheme, unit) eng" where
  "abort_execute execution_count ks ib =
     (let req = message ib in
      bindE (status ks req ''busy'') (\<lambda>_.
      bindE (send_reply ks (reply ib) req ''execute_reply'' (aborted_content execution_count)) (\<lambda>_.
      status ks req ''idle'')))"

definition error_fields :: "string \<Rightarrow> string \<Rightarrow> json_map" where
  "error_fields en ev = [(''ename'', JStr en), (''evalue'', JStr ev), (''traceback'', JArr [])]"

definition refused_content :: "u64 \<Rightarrow> json_map \<Rightarrow> json" where
  "refused_content execution_count flds =
     JObj ([(''status'', JStr ''error''), (''execution_count'', jnat execution_count)] @ flds @
           [(''user_expressions'', JObj []), (''payload'', JArr [])])"

definition interrupt_execute :: "u64 \<Rightarrow> kernel_services \<Rightarrow> inbound \<Rightarrow> ('z world_scheme, unit) eng" where
  "interrupt_execute execution_count ks ib =
     (let req = message ib; flds = error_fields ''KeyboardInterrupt'' '''' in
      bindE (status ks req ''busy'') (\<lambda>_.
      bindE (send_iopub ks req ''error'' (JObj flds)) (\<lambda>_.
      bindE (send_reply ks (reply ib) req ''execute_reply'' (refused_content execution_count flds)) (\<lambda>_.
      status ks req ''idle''))))"

definition begin_hold :: "u64 \<Rightarrow> kernel_services \<Rightarrow> queue_item \<Rightarrow> ('z world_scheme, unit) eng" where
  "begin_hold execution_count ks item =
     (let req = message (item_inbound item) in
      bindE (status ks req ''busy'') (\<lambda>_.
      whenE (\<not> bool_field (content req) ''silent'' False)
        (send_iopub ks req ''execute_input''
           (input_content (str_field (content req) ''code'' '''') execution_count))))"

definition hold_error :: "string \<Rightarrow> json_map option" where
  "hold_error release_status =
     (if release_status = ''error'' then Some (error_fields ''HoldError'' ''released with status error'')
      else if release_status = ''interrupt'' then Some (error_fields ''KeyboardInterrupt'' '''')
      else if release_status = ''timeout'' then Some (error_fields ''HoldTimeout'' ''held execution timed out'')
      else None)"

definition released_content :: json where
  "released_content = JObj [(''status'', JStr ''ok''), (''execution_count'', JNull),
     (''user_expressions'', JObj []), (''payload'', JArr [])]"

definition finish_hold :: "u64 \<Rightarrow> kernel_services \<Rightarrow> queue_item \<Rightarrow> string \<Rightarrow>
    ('z world_scheme, bool) eng" where
  "finish_hold execution_count ks item release_status =
     (let req = message (item_inbound item); err = hold_error release_status in
      bindE (case err of
               Some flds \<Rightarrow> bindE (send_iopub ks req ''error'' (JObj flds))
                 (\<lambda>_. returnE (refused_content execution_count flds))
             | None \<Rightarrow> returnE released_content) (\<lambda>body.
      bindE (send_reply ks (reply (item_inbound item)) req ''execute_reply'' body) (\<lambda>_.
      bindE (status ks req ''idle'') (\<lambda>_.
      returnE (err \<noteq> None)))))"

section \<open>The other shell requests\<close>

definition callE :: "(nat \<Rightarrow> 'a result) \<Rightarrow> ('z world_scheme, 'a) eng" where
  "callE f = bindE momentE (\<lambda>n. liftE (f n))"

definition kernel_info_content :: "kernel_services \<Rightarrow> kernel_info \<Rightarrow> bool \<Rightarrow> string list \<Rightarrow> json" where
  "kernel_info_content ks info debugger features =
     JObj [(''status'', JStr ''ok''), (''protocol_version'', JStr ''5.3''),
       (''implementation'', JStr (implementation info)),
       (''implementation_version'', JStr (implementation_version info)),
       (''banner'', JStr (banner info)), (''language_info'', language_info info),
       (''help_links'', JArr []), (''debugger'', JBool debugger),
       (''supported_features'', JArr (map JStr
          (features @ (if ks_supports_subshells ks then [''kernel subshells''] else []) @
           (if debugger then [''debugger''] else []))))]"

definition info_content :: "shell_services \<Rightarrow> message \<Rightarrow> ('z world_scheme, json) eng" where
  "info_content svc req =
     (let l = svc_language svc; body = content req; code = str_field body ''code'' '''' in
      if msg_type req = ''kernel_info_request'' then
        bindE (callE (lang_kernel_info l)) (\<lambda>info.
        bindE momentE (\<lambda>n. let debugger = lang_supports_debugger l n in
        bindE momentE (\<lambda>n. let features = lang_supported_features l n in
        returnE (kernel_info_content (svc_shared svc) info debugger features))))
      else if msg_type req = ''complete_request'' then
        callE (\<lambda>n. lang_complete l n \<lparr>cr_code = code, cr_cursor_pos = u64_field body ''cursor_pos'' 0\<rparr>)
      else if msg_type req = ''inspect_request'' then
        callE (\<lambda>n. lang_inspect l n \<lparr>ir_code = code, ir_cursor_pos = u64_field body ''cursor_pos'' 0,
                                       ir_detail_level = u64_field body ''detail_level'' 0\<rparr>)
      else if msg_type req = ''is_complete_request'' then callE (\<lambda>n. lang_is_complete l n code)
      else callE (\<lambda>n. lang_history l n body))"

definition info_requests :: "string list" where
  "info_requests = [''kernel_info_request'', ''complete_request'', ''inspect_request'',
     ''is_complete_request'', ''history_request'']"

definition handle_comm :: "shell_services \<Rightarrow> message \<Rightarrow> u64 \<Rightarrow> ('z world_scheme, unit) eng" where
  "handle_comm svc req execution_count =
     bindE momentE (\<lambda>n.
     let (batches, r) =
           lang_message (svc_language svc) n
             \<lparr>lm_msg_type = msg_type req, lm_content = content req, lm_buffers = buffers req\<rparr>
             (output_context (svc_shared svc) req None execution_count) in
     bindE (pump_and_flush (svc_shared svc) req None False batches) (\<lambda>flushed.
     bindE (liftE r) (\<lambda>_. liftE flushed)))"

definition handle_shell :: "shell_services \<Rightarrow> inbound \<Rightarrow> u64 \<Rightarrow> ('z world_scheme, shell_outcome) eng" where
  "handle_shell svc ib execution_count =
     (let ks = svc_shared svc; req = message ib; sink = reply ib; t = msg_type req;
          missing = missing_fields req in
      if missing \<noteq> [] then
        bindE (reply_missing execution_count ks req sink missing) (\<lambda>_. returnE Continue)
      else if t = ''shutdown_request'' then
        bindE (send_reply ks sink req ''shutdown_reply''
                 (JObj [(''status'', JStr ''ok''),
                        (''restart'', JBool (bool_field (content req) ''restart'' False))])) (\<lambda>_.
        returnE Shutdown)
      else if t \<in> set info_requests then
        bindE (status ks req ''busy'') (\<lambda>_.
        bindE (info_content svc req) (\<lambda>body.
        bindE (send_reply ks sink req (reply_type t) body) (\<lambda>_.
        bindE (status ks req ''idle'') (\<lambda>_.
        returnE Continue))))
      else if t = ''comm_info_request'' then
        bindE (callE (\<lambda>n. lang_comm_info (svc_language svc) n (content req))) (\<lambda>body.
        bindE (send_reply ks sink req ''comm_info_reply'' body) (\<lambda>_.
        returnE Continue))
      else if t = ''connect_request'' then
        bindE (send_reply ks sink req ''connect_reply'' (ks_connection ks)) (\<lambda>_. returnE Continue)
      else if t \<in> {''comm_open'', ''comm_msg'', ''comm_close''} then
        bindE (handle_comm svc req execution_count) (\<lambda>_. returnE Continue)
      else if ends_with t ''_request'' then
        bindE (send_reply ks sink req (reply_type t) (JObj [(''status'', JStr ''ok'')])) (\<lambda>_.
        returnE Continue)
      else returnE Continue)"

section \<open>What a client observes\<close>

definition published_under :: "message \<Rightarrow> event \<Rightarrow> bool" where
  "published_under req e \<longleftrightarrow> (\<exists>m. e = Pub m \<and> parent_header m = header req)"

definition busy :: "message \<Rightarrow> event" where
  "busy req = Pub (state_notice ''busy'' req)"

definition idle :: "message \<Rightarrow> event" where
  "idle req = Pub (state_notice ''idle'' req)"

definition input_events :: "message \<Rightarrow> bool \<Rightarrow> string \<Rightarrow> u64 \<Rightarrow> event list" where
  "input_events req silent code n =
     (if silent then [] else [Pub (notice ''execute_input'' (input_content code n) req)])"

text \<open>The result of a finished execution: the messages after the output, and the reply.\<close>

definition outcome_events :: "message \<Rightarrow> bool \<Rightarrow> u64 \<Rightarrow> execute_outcome \<Rightarrow> event list" where
  "outcome_events req silent n out =
     (case out_error out of
        Some err \<Rightarrow> [Pub (notice ''error'' (JObj [(''ename'', JStr (ename err)), (''evalue'', JStr (evalue err)),
            (''traceback'', JArr (map JStr (traceback err)))]) req)]
      | None \<Rightarrow>
          (case out_result out of
             Some v \<Rightarrow> if silent then [] else
               [Pub (notice ''execute_result'' (JObj [(''execution_count'', jnat n), (''data'', v),
                  (''metadata'', out_result_metadata out)]) req)]
           | None \<Rightarrow> []))"

definition outcome_reply :: "u64 \<Rightarrow> execute_outcome \<Rightarrow> json" where
  "outcome_reply n out =
     (case out_error out of
        Some err \<Rightarrow> JObj [(''status'', JStr ''error''), (''execution_count'', jnat n),
            (''ename'', JStr (ename err)), (''evalue'', JStr (evalue err)),
            (''traceback'', JArr (map JStr (traceback err)))]
      | None \<Rightarrow> JObj [(''status'', JStr ''ok''), (''execution_count'', jnat n),
            (''user_expressions'', out_user_expressions out), (''payload'', out_payload out)])"

section \<open>Lemmas\<close>


lemma reply_type_execute [simp]: "reply_type ''execute_request'' = ''execute_reply''"
  by (simp add: reply_type_def starts_with_def)

lemma ends_with_execute [simp]: "ends_with ''execute_request'' ''_request''"
  by (simp add: ends_with_def)

lemma parent_notice [simp]: "parent_header (notice t b p) = header p"
  by (simp add: notice_def)

lemma published_under_notice [simp]: "published_under req (Pub (notice t b req))"
  by (simp add: published_under_def)

lemma published_under_busy [simp]: "published_under req (busy req)" "published_under req (idle req)"
  by (simp_all add: busy_def idle_def state_notice_def)

lemma parent_event_notice: "parent_header (event_notice req e) = header req"
  by (cases e) simp_all

lemma batch_events_under: "e \<in> set (batch_events req silent ms) \<Longrightarrow> published_under req e"
proof -
  have "e \<in> set (output_events req silent m) \<Longrightarrow> published_under req e" for m
    by (cases m) (auto simp: published_under_def parent_event_notice split: if_splits)
  then show "e \<in> set (batch_events req silent ms) \<Longrightarrow> published_under req e"
    by (auto simp: batch_events_def)
qed

lemma emits_status_busy [emit_rules]: "encodes ks \<Longrightarrow> emits (status ks req ''busy'') [busy req] ()"
  by (simp add: busy_def emits_status)

lemma emits_status_idle [emit_rules]: "encodes ks \<Longrightarrow> emits (status ks req ''idle'') [idle req] ()"
  by (simp add: idle_def emits_status)

lemma emits_abort_execute:
  "encodes ks \<Longrightarrow> emits (abort_execute n ks ib)
     [busy (message ib), Rep (reply ib) (notice ''execute_reply'' (aborted_content n) (message ib)),
      idle (message ib)] ()"
  unfolding abort_execute_def Let_def by (auto intro!: emit_rules)

lemma emits_interrupt_execute:
  "encodes ks \<Longrightarrow> emits (interrupt_execute n ks ib)
     [busy (message ib),
      Pub (notice ''error'' (JObj (error_fields ''KeyboardInterrupt'' '''')) (message ib)),
      Rep (reply ib) (notice ''execute_reply''
        (refused_content n (error_fields ''KeyboardInterrupt'' '''')) (message ib)),
      idle (message ib)] ()"
  unfolding interrupt_execute_def Let_def by (auto intro!: emit_rules)

lemma emits_begin_hold:
  "encodes ks \<Longrightarrow> req = message (item_inbound item) \<Longrightarrow> emits (begin_hold n ks item)
     (busy req # input_events req (bool_field (content req) ''silent'' False)
        (str_field (content req) ''code'' '''') n) ()"
  unfolding begin_hold_def Let_def input_events_def by (auto intro!: emit_rules)

definition hold_reply :: "u64 \<Rightarrow> string \<Rightarrow> json" where
  "hold_reply n release_status =
     (case hold_error release_status of Some flds \<Rightarrow> refused_content n flds | None \<Rightarrow> released_content)"

definition hold_error_events :: "message \<Rightarrow> string \<Rightarrow> event list" where
  "hold_error_events req release_status =
     (case hold_error release_status of Some flds \<Rightarrow> [Pub (notice ''error'' (JObj flds) req)] | None \<Rightarrow> [])"

lemma emits_finish_hold:
  "encodes ks \<Longrightarrow> req = message (item_inbound item) \<Longrightarrow> emits (finish_hold n ks item st)
     (hold_error_events req st @
      [Rep (reply (item_inbound item)) (notice ''execute_reply'' (hold_reply n st) req), idle req])
     (hold_error st \<noteq> None)"
  unfolding finish_hold_def Let_def hold_reply_def hold_error_events_def
  by (cases "hold_error st") (auto intro!: emit_rules)

lemma emits_reply_error:
  "encodes ks \<Longrightarrow> emits (reply_error ks req sink body)
     (if msg_type req = ''execute_request''
      then [busy req, Pub (notice ''error'' body req), Rep sink (notice ''execute_reply'' body req), idle req]
      else [Rep sink (notice (reply_type (msg_type req)) body req)]) ()"
  unfolding reply_error_def by (auto intro!: emit_rules simp: whenE_def)

definition failure_content :: "message \<Rightarrow> u64 \<Rightarrow> error \<Rightarrow> json" where
  "failure_content req n e = error_content req n
     (if kind e = Interrupted then ''KeyboardInterrupt'' else ''KernelError'') (show_error e)"

lemma emits_report_failure:
  "encodes (svc_shared svc) \<Longrightarrow> emits (report_failure svc req sink e n)
     ((if msg_type req = ''execute_request'' then [Pub (notice ''error'' (failure_content req n e) req)] else []) @
      (if ends_with (msg_type req) ''_request''
       then [Rep sink (notice (reply_type (msg_type req)) (failure_content req n e) req)] else []) @
      [idle req]) ()"
  unfolding report_failure_def failure_content_def Let_def by (auto intro!: emit_rules simp: whenE_def)

lemma emits_finish_outcome:
  "encodes ks \<Longrightarrow> emits (finish_outcome ks req silent k out) (outcome_events req silent k out)
     (outcome_reply k out, out_error out \<noteq> None)"
  unfolding finish_outcome_def outcome_events_def outcome_reply_def Let_def
  by (cases "out_error out"; cases "out_result out") (auto intro!: emit_rules)

text \<open>The messages of an execution whose language returned \<open>outcome\<close>, and its result.\<close>

definition execute_events :: "message \<Rightarrow> execute_request \<Rightarrow> u64 \<Rightarrow> context_message list list \<Rightarrow>
    execute_outcome result \<Rightarrow> event list" where
  "execute_events req ex k batches outcome =
     input_events req (er_silent ex) (er_code ex) k @
     concat (map (batch_events req (er_silent ex)) batches) @
     (case outcome of Inl e \<Rightarrow> [] | Inr out \<Rightarrow> outcome_events req (er_silent ex) k out)"

definition execute_result :: "u64 \<Rightarrow> execute_outcome result \<Rightarrow> (json \<times> bool) result" where
  "execute_result k outcome =
     (case outcome of Inl e \<Rightarrow> Inl e | Inr out \<Rightarrow> Inr (outcome_reply k out, out_error out \<noteq> None))"

lemma execute_after_language:
  assumes "encodes ks"
  shows "runs (bindE (pump_and_flush ks req ident silent batches) (\<lambda>flushed.
      bindE (liftE outcome) (\<lambda>out. bindE (liftE flushed) (\<lambda>_. finish_outcome ks req silent k out)))) w
    (concat (map (batch_events req silent) batches) @
     (case outcome of Inl e \<Rightarrow> [] | Inr out \<Rightarrow> outcome_events req silent k out))
    (execute_result k outcome) (world.more w)"
proof (rule runs_bind_emits [OF emits_pump_and_flush [OF assms]], rule runs_bind_lift, goal_cases)
  case (1 w')
  show ?case
  proof (cases outcome)
    case (Inl e)
    then show ?thesis using runs_lift [of "Inl e" w'] 1 by (simp add: execute_result_def)
  next
    case (Inr out)
    then show ?thesis
      using emits_runs [OF emits_finish_outcome [OF assms, of req silent k out], of w'] 1
      by (simp add: execute_result_def bindE_def liftE_def runs_def)
  qed
qed

lemma execute_runs:
  assumes "encodes (svc_shared svc)"
  shows "\<exists>n batches outcome.
    lang_execute (svc_language svc) n ex (output_context (svc_shared svc) req (Some ident) k) =
      (batches, outcome) \<and>
    runs (execute svc ident req ex k) w (busy req # execute_events req ex k batches outcome)
      (execute_result k outcome) (world.more w)"
proof -
  let ?ks = "svc_shared svc"
  have "emits (bindE (status ?ks req ''busy'') (\<lambda>_. whenE (\<not> er_silent ex)
        (send_iopub ?ks req ''execute_input'' (input_content (er_code ex) k))))
      (busy req # input_events req (er_silent ex) (er_code ex) k) ()" (is "emits ?start ?es ()")
    using assms by (auto simp: input_events_def intro!: emit_rules)
  from emits_obtain [OF this, of w] obtain w1 where w1: "?start w = (Inr (), w1)"
    "observed w1 = observed w @ ?es" "world.more w1 = world.more w" "clock w1 = clock w" by blast
  obtain batches outcome where lang: "lang_execute (svc_language svc) (draws w1) ex
      (output_context ?ks req (Some ident) k) = (batches, outcome)" by fastforce
  have "execute svc ident req ex k w =
      (bindE (pump_and_flush ?ks req (Some ident) (er_silent ex) batches) (\<lambda>flushed.
       bindE (liftE outcome) (\<lambda>out. bindE (liftE flushed) (\<lambda>_.
       finish_outcome ?ks req (er_silent ex) k out)))) (w1\<lparr>draws := Suc (draws w1)\<rparr>)"
    using w1(1) lang
    by (simp add: execute_def Let_def bindE_def [of "status _ _ _"] bindE_def [of "whenE _ _"]
        bindE_def [of momentE] momentE_def split: prod.splits sum.splits)
  then have "runs (execute svc ident req ex k) w (busy req # execute_events req ex k batches outcome)
      (execute_result k outcome) (world.more w)"
    using execute_after_language [OF assms, of req "Some ident" "er_silent ex" batches outcome k
        "w1\<lparr>draws := Suc (draws w1)\<rparr>"] w1 by (simp add: runs_def execute_events_def)
  with lang show ?thesis by blast
qed

lemma execute_events_under:
  "e \<in> set (execute_events req ex k batches outcome) \<Longrightarrow> published_under req e"
  by (auto simp: execute_events_def input_events_def outcome_events_def dest: batch_events_under
      split: if_splits sum.splits option.splits)

text \<open>The reply of the task around an execution.\<close>

definition run_reply :: "message \<Rightarrow> u64 \<Rightarrow> execute_outcome result \<Rightarrow> json" where
  "run_reply req k outcome =
     (case outcome of Inl e \<Rightarrow> failure_content req k e | Inr out \<Rightarrow> outcome_reply k out)"

definition run_error_events :: "message \<Rightarrow> u64 \<Rightarrow> execute_outcome result \<Rightarrow> event list" where
  "run_error_events req k outcome =
     (case outcome of Inl e \<Rightarrow> [Pub (notice ''error'' (failure_content req k e) req)] | Inr out \<Rightarrow> [])"

definition run_result :: "message \<Rightarrow> execute_outcome result \<Rightarrow> execution_done result" where
  "run_result req outcome =
     (let stop = bool_field (content req) ''stop_on_error'' True in
      case outcome of
        Inl e \<Rightarrow> if kind e = Closed then Inl e else Inr \<lparr>failed = True, stop_on_error = stop\<rparr>
      | Inr out \<Rightarrow> Inr \<lparr>failed = (out_error out \<noteq> None), stop_on_error = stop\<rparr>)"

lemma run_execution_runs:
  assumes "encodes (svc_shared svc)" and "req = message ib" and "msg_type req = ''execute_request''"
  shows "\<exists>n batches outcome.
    lang_execute (svc_language svc) n ex (output_context (svc_shared svc) req (Some (identity ib)) k) =
      (batches, outcome) \<and>
    runs (run_execution svc ib ex k) w
      (busy req # execute_events req ex k batches outcome @ run_error_events req k outcome @
       [Rep (reply ib) (notice ''execute_reply'' (run_reply req k outcome) req), idle req])
      (run_result req outcome) (world.more w)"
proof -
  from execute_runs [OF assms(1), of ex req "identity ib" k w] obtain n batches outcome where
    lang: "lang_execute (svc_language svc) n ex
        (output_context (svc_shared svc) req (Some (identity ib)) k) = (batches, outcome)"
    and run: "runs (execute svc (identity ib) req ex k) w
        (busy req # execute_events req ex k batches outcome) (execute_result k outcome) (world.more w)"
    by blast
  have "runs (run_execution svc ib ex k) w
      ((busy req # execute_events req ex k batches outcome) @ run_error_events req k outcome @
       [Rep (reply ib) (notice ''execute_reply'' (run_reply req k outcome) req), idle req])
      (run_result req outcome) (world.more w)"
    unfolding run_execution_def Let_def assms(2) [symmetric]
  proof (rule runs_bind [OF runs_try [OF run]], cases outcome, goal_cases)
    case (1 w' e)
    have "emits (report_failure svc req (reply ib) e k) (run_error_events req k outcome @
        [Rep (reply ib) (notice ''execute_reply'' (run_reply req k outcome) req), idle req]) ()"
      using emits_report_failure [OF assms(1), of req "reply ib" e k] assms(3) 1(3)
      by (simp add: run_error_events_def run_reply_def)
    with 1 show ?case
      by (auto simp: execute_result_def run_result_def
          intro!: runs_bind_emits_last runs_lift_eq runs_return_eq)
  next
    case (2 w' out)
    then show ?case
      using assms(1)
      by (auto simp: execute_result_def run_result_def run_error_events_def run_reply_def
          intro!: emits_runs_eq emit_rules)
  qed
  with lang show ?thesis by auto
qed

section \<open>The other shell requests\<close>

fun is_reply :: "event \<Rightarrow> bool" where
  "is_reply (Rep s m) = True"
| "is_reply (Pub m) = False"

definition replies :: "event list \<Rightarrow> event list" where
  "replies es = filter is_reply es"

lemma replies_simps [simp]:
  "replies [] = []" "replies (Rep s m # es) = Rep s m # replies es" "replies (Pub m # es) = replies es"
  "replies (busy req # es) = replies es" "replies (idle req # es) = replies es"
  "replies (es @ fs) = replies es @ replies fs"
  by (simp_all add: replies_def busy_def idle_def)

lemma replies_published: "(\<And>e. e \<in> set es \<Longrightarrow> published_under req e) \<Longrightarrow> replies es = []"
proof -
  assume "\<And>e. e \<in> set es \<Longrightarrow> published_under req e"
  then have "\<not> is_reply e" if "e \<in> set es" for e
    using that by (fastforce simp: published_under_def)
  then show "replies es = []" by (simp add: replies_def)
qed

lemma runs_call: "\<exists>r. runs (callE f) w [] r (world.more w)"
  unfolding callE_def by (rule exI, rule runs_moment) (simp add: runs_def liftE_def)

lemma info_content_runs: "\<exists>r. runs (info_content svc req) w [] r (world.more w)"
proof (cases "msg_type req = ''kernel_info_request''")
  case True
  then show ?thesis
    by (auto simp: info_content_def Let_def callE_def runs_def bindE_def momentE_def liftE_def returnE_def
        split: sum.splits)
next
  case False
  then show ?thesis by (auto simp: info_content_def Let_def runs_call)
qed

lemma handle_comm_runs:
  assumes "encodes (svc_shared svc)"
  shows "\<exists>es r. runs (handle_comm svc req k) w es r (world.more w) \<and> (\<forall>e\<in>set es. published_under req e)"
proof -
  obtain batches r where lm: "lang_message (svc_language svc) (draws w)
      \<lparr>lm_msg_type = msg_type req, lm_content = content req, lm_buffers = buffers req\<rparr>
      (output_context (svc_shared svc) req None k) = (batches, r)" by fastforce
  have "runs (handle_comm svc req k) w (concat (map (batch_events req False) batches)) r (world.more w)"
    unfolding handle_comm_def
    using assms
    by (intro runs_moment) (cases r; auto simp: lm bindE_def liftE_def
        intro!: runs_bind_emits_last [OF emits_pump_and_flush] runs_lift_eq runs_bind_lift runs_return_eq)
  then show ?thesis by (intro exI conjI) (auto dest: batch_events_under)
qed

text \<open>The type of the reply that a request of type \<open>t\<close> gets, where it gets one.\<close>

definition single_reply :: "inbound \<Rightarrow> event list \<Rightarrow> bool" where
  "single_reply ib es \<longleftrightarrow>
     (\<exists>body. replies es = [Rep (reply ib) (notice (reply_type (msg_type (message ib))) body (message ib))])"

lemma handle_info_runs:
  assumes "encodes (svc_shared svc)"
  shows "\<exists>es r. runs (bindE (status (svc_shared svc) (message ib) ''busy'') (\<lambda>_.
        bindE (info_content svc (message ib)) (\<lambda>body.
        bindE (send_reply (svc_shared svc) (reply ib) (message ib) (reply_type (msg_type (message ib))) body) (\<lambda>_.
        bindE (status (svc_shared svc) (message ib) ''idle'') (\<lambda>_.
        returnE Continue))))) w es r (world.more w) \<and>
      (case r of Inr _ \<Rightarrow> single_reply ib es | Inl _ \<Rightarrow> es = [busy (message ib)])"
    (is "\<exists>es r. runs (bindE ?b (\<lambda>_. bindE ?i ?f)) w es r _ \<and> _")
proof -
  obtain w1 where w1: "?b w = (Inr (), w1)" "observed w1 = observed w @ [busy (message ib)]"
    "world.more w1 = world.more w" "clock w1 = clock w"
    using emits_obtain [OF emits_status_busy [OF assms]] by blast
  obtain r where r: "runs ?i w1 [] r (world.more w1)" using info_content_runs by blast
  show ?thesis
  proof (cases r)
    case (Inl e)
    with w1 runs_bind_error [of ?i w1 "[]" e "world.more w1" ?f] r show ?thesis
      by (intro exI [of _ "[busy (message ib)]"] exI [of _ "Inl e"]) (auto simp: runs_def bindE_def [of ?b])
  next
    case (Inr body)
    let ?es = "[Rep (reply ib) (notice (reply_type (msg_type (message ib))) body (message ib)), idle (message ib)]"
    have "emits (?f body) ?es Continue" using assms by (auto intro!: emit_rules)
    then have "runs (bindE ?i ?f) w1 ([] @ ?es) (Inr Continue) (world.more w1)"
      using r Inr by (intro runs_bind [of ?i w1 "[]" body]) (auto intro: emits_runs_eq)
    with w1 show ?thesis
      by (intro exI [of _ "busy (message ib) # ?es"] exI [of _ "Inr Continue"])
        (auto simp: runs_def bindE_def [of ?b] single_reply_def)
  qed
qed

lemma reply_type_values [simp]:
  "reply_type ''shutdown_request'' = ''shutdown_reply''"
  "reply_type ''comm_info_request'' = ''comm_info_reply''"
  "reply_type ''connect_request'' = ''connect_reply''"
  by (simp_all add: reply_type_def starts_with_def)

lemma ends_with_values [simp]:
  "ends_with ''shutdown_request'' ''_request''" "ends_with ''comm_info_request'' ''_request''"
  "ends_with ''connect_request'' ''_request''" "\<not> ends_with ''comm_open'' ''_request''"
  "\<not> ends_with ''comm_msg'' ''_request''" "\<not> ends_with ''comm_close'' ''_request''"
  "t \<in> set info_requests \<Longrightarrow> ends_with t ''_request''"
  by (auto simp: ends_with_def info_requests_def)

lemma missing_fields_request: "missing_fields req \<noteq> [] \<Longrightarrow> ends_with (msg_type req) ''_request''"
  by (auto simp: missing_fields_def required_fields_def ends_with_def split: if_splits)

text \<open>
  The replies of \<open>handle_shell\<close>: one, of the right type, for a request that succeeds;
  none for a message that is not a request, or when the language fails (its caller reports
  the failure).
\<close>

definition answers :: "inbound \<Rightarrow> event list \<Rightarrow> 'a result \<Rightarrow> bool" where
  "answers ib es r \<longleftrightarrow>
     (case r of
        Inr _ \<Rightarrow> if ends_with (msg_type (message ib)) ''_request'' then single_reply ib es
                 else replies es = []
      | Inl _ \<Rightarrow> replies es = [])"

lemma single_replyI:
  "replies es = [Rep (reply ib) (notice (reply_type (msg_type (message ib))) body (message ib))] \<Longrightarrow>
   single_reply ib es"
  by (auto simp: single_reply_def)

lemma answersI:
  "ends_with (msg_type (message ib)) ''_request'' \<Longrightarrow> single_reply ib es \<Longrightarrow> answers ib es (Inr a)"
  "\<not> ends_with (msg_type (message ib)) ''_request'' \<Longrightarrow> replies es = [] \<Longrightarrow> answers ib es (Inr a)"
  "replies es = [] \<Longrightarrow> answers ib es (Inl e)"
  by (simp_all add: answers_def)

lemma emits_answers:
  "emits m es a \<Longrightarrow> answers ib es (Inr a) \<Longrightarrow> \<exists>es r. runs m w es r (world.more w) \<and> answers ib es r"
  by (rule exI, rule exI, rule conjI, rule emits_runs)

lemma answers_reply:
  assumes "encodes ks" and "ends_with (msg_type (message ib)) ''_request''"
    and "t = reply_type (msg_type (message ib))"
  shows "\<exists>es r. runs (bindE (send_reply ks (reply ib) (message ib) t body) (\<lambda>_. returnE a)) w es r
    (world.more w) \<and> answers ib es r"
proof (rule emits_answers)
  show "emits (bindE (send_reply ks (reply ib) (message ib) t body) (\<lambda>_. returnE a))
      [Rep (reply ib) (notice t body (message ib))] a"
    using assms(1) by (auto intro!: emit_rules)
  show "answers ib [Rep (reply ib) (notice t body (message ib))] (Inr a)"
    using assms(2,3) by (intro answersI(1) single_replyI) auto
qed

lemma answers_missing:
  assumes "encodes (svc_shared svc)" and "msg_type (message ib) \<noteq> ''execute_request''"
    and "missing_fields (message ib) \<noteq> []"
  shows "\<exists>es r. runs (handle_shell svc ib k) w es r (world.more w) \<and> answers ib es r"
proof (rule emits_answers)
  let ?body = "error_content (message ib) k ''MissingField''
    (''missing required fields: '' @ str_join '', '' (missing_fields (message ib)))"
  let ?es = "[Rep (reply ib) (notice (reply_type (msg_type (message ib))) ?body (message ib))]"
  have "emits (reply_missing k (svc_shared svc) (message ib) (reply ib) (missing_fields (message ib))) ?es ()"
    using emits_reply_error [OF assms(1), of "message ib" "reply ib" ?body] assms(2)
    by (simp add: reply_missing_def)
  then show "emits (handle_shell svc ib k) ?es Continue"
    using assms(3) by (auto simp: handle_shell_def Let_def intro!: emit_rules)
  show "answers ib ?es (Inr Continue)"
    using missing_fields_request [OF assms(3)] by (intro answersI(1) single_replyI) auto
qed

lemma answers_comm_info:
  assumes "encodes (svc_shared svc)" and "missing_fields (message ib) = []"
    and "msg_type (message ib) = ''comm_info_request''"
  shows "\<exists>es r. runs (handle_shell svc ib k) w es r (world.more w) \<and> answers ib es r"
proof -
  let ?call = "callE (\<lambda>n. lang_comm_info (svc_language svc) n (content (message ib)))"
  let ?f = "\<lambda>body. bindE (send_reply (svc_shared svc) (reply ib) (message ib) ''comm_info_reply'' body)
    (\<lambda>_. returnE Continue)"
  have shell: "handle_shell svc ib k = bindE ?call ?f"
    using assms(2,3) by (simp add: handle_shell_def Let_def info_requests_def)
  obtain r where r: "runs ?call w [] r (world.more w)" using runs_call by blast
  show ?thesis
  proof (cases r)
    case (Inl e)
    with r have "runs (bindE ?call ?f) w [] (Inl e) (world.more w)" by (auto intro: runs_bind_error)
    with shell show ?thesis using answersI(3) [of "[]"] by (metis replies_simps(1))
  next
    case (Inr body)
    let ?es = "[Rep (reply ib) (notice ''comm_info_reply'' body (message ib))]"
    have "emits (?f body) ?es Continue" using assms(1) by (auto intro!: emit_rules)
    then have "runs (bindE ?call ?f) w ([] @ ?es) (Inr Continue) (world.more w)"
      using r Inr by (intro runs_bind [of ?call w "[]" body]) (auto intro: emits_runs_eq)
    moreover have "answers ib ([] @ ?es) (Inr Continue)"
      using assms(3) by (intro answersI(1) single_replyI) auto
    ultimately show ?thesis unfolding shell by blast
  qed
qed

lemma answers_comm:
  assumes "encodes (svc_shared svc)" and "missing_fields (message ib) = []"
    and "msg_type (message ib) \<in> {''comm_open'', ''comm_msg'', ''comm_close''}"
  shows "\<exists>es r. runs (handle_shell svc ib k) w es r (world.more w) \<and> answers ib es r"
proof -
  obtain es r where r: "runs (handle_comm svc (message ib) k) w es r (world.more w)"
    and pub: "\<forall>e\<in>set es. published_under (message ib) e" using handle_comm_runs [OF assms(1)] by blast
  from pub have es: "replies es = []" by (auto intro: replies_published)
  from assms(2,3) have shell: "handle_shell svc ib k =
      bindE (handle_comm svc (message ib) k) (\<lambda>_. returnE Continue)"
    by (auto simp: handle_shell_def Let_def info_requests_def)
  show ?thesis
  proof (cases r)
    case (Inl e)
    have "runs (handle_shell svc ib k) w es (Inl e) (world.more w)"
      unfolding shell using r Inl by (intro runs_bind_error) simp
    with es show ?thesis using answersI(3) by blast
  next
    case (Inr u)
    then have "runs (handle_shell svc ib k) w (es @ []) (Inr Continue) (world.more w)"
      unfolding shell using r by (intro runs_bind [of _ w es u]) (auto intro: runs_return_eq)
    moreover have "answers ib (es @ []) (Inr Continue)"
      using es assms(3) by (intro answersI(2)) auto
    ultimately show ?thesis by blast
  qed
qed

lemma answers_info:
  assumes "encodes (svc_shared svc)" and "missing_fields (message ib) = []"
    and "msg_type (message ib) \<in> set info_requests"
  shows "\<exists>es r. runs (handle_shell svc ib k) w es r (world.more w) \<and> answers ib es r"
proof -
  have "msg_type (message ib) \<noteq> ''shutdown_request''" using assms(3) by (auto simp: info_requests_def)
  with handle_info_runs [OF assms(1), of ib w] assms(2,3) obtain es r where
    run: "runs (handle_shell svc ib k) w es r (world.more w)"
    and r: "case r of Inr _ \<Rightarrow> single_reply ib es | Inl _ \<Rightarrow> es = [busy (message ib)]"
    by (simp add: handle_shell_def Let_def) blast
  have "answers ib es r"
  proof (cases r)
    case (Inl e)
    with r show ?thesis by (simp add: answersI(3))
  next
    case (Inr a)
    with r ends_with_values(7) [OF assms(3)] show ?thesis by (simp add: answersI(1))
  qed
  with run show ?thesis by blast
qed

lemma answers_other:
  assumes "encodes (svc_shared svc)" and "missing_fields (message ib) = []"
    and "msg_type (message ib) \<notin> set info_requests"
    and "msg_type (message ib) \<notin> {''shutdown_request'', ''comm_info_request'', ''connect_request'',
      ''comm_open'', ''comm_msg'', ''comm_close''}"
  shows "\<exists>es r. runs (handle_shell svc ib k) w es r (world.more w) \<and> answers ib es r"
proof -
  have shell: "handle_shell svc ib k =
      (if ends_with (msg_type (message ib)) ''_request''
       then bindE (send_reply (svc_shared svc) (reply ib) (message ib) (reply_type (msg_type (message ib)))
         (JObj [(''status'', JStr ''ok'')])) (\<lambda>_. returnE Continue)
       else returnE Continue)"
    using assms(2-4) by (simp add: handle_shell_def Let_def)
  show ?thesis
  proof (cases "ends_with (msg_type (message ib)) ''_request''")
    case True
    then show ?thesis unfolding shell if_P [OF True] by (rule answers_reply [OF assms(1) _ refl])
  next
    case False
    then show ?thesis
      unfolding shell if_not_P [OF False]
      by (intro emits_answers [OF emits_return] answersI(2)) simp_all
  qed
qed

lemma handle_shell_answers:
  assumes "encodes (svc_shared svc)" and "msg_type (message ib) \<noteq> ''execute_request''"
  shows "\<exists>es r. runs (handle_shell svc ib k) w es r (world.more w) \<and> answers ib es r"
proof -
  let ?req = "message ib" and ?t = "msg_type (message ib)"
  note reply = answers_reply [OF assms(1)]
  consider (missing) "missing_fields ?req \<noteq> []"
    | (shutdown) "missing_fields ?req = []" "?t = ''shutdown_request''"
    | (info) "missing_fields ?req = []" "?t \<in> set info_requests"
    | (comm_info) "missing_fields ?req = []" "?t = ''comm_info_request''"
    | (connect) "missing_fields ?req = []" "?t = ''connect_request''"
    | (comm) "missing_fields ?req = []" "?t \<in> {''comm_open'', ''comm_msg'', ''comm_close''}"
    | (other) "missing_fields ?req = []" "?t \<notin> set info_requests"
        "?t \<notin> {''shutdown_request'', ''comm_info_request'', ''connect_request'', ''comm_open'',
          ''comm_msg'', ''comm_close''}"
    by blast
  then show ?thesis
  proof cases
    case missing
    then show ?thesis by (rule answers_missing [OF assms])
  next
    case shutdown
    then show ?thesis using reply [of ib "''shutdown_reply''"] by (simp add: handle_shell_def Let_def)
  next
    case info
    then show ?thesis by (rule answers_info [OF assms(1)])
  next
    case comm_info
    then show ?thesis by (rule answers_comm_info [OF assms(1)])
  next
    case connect
    then show ?thesis
      using reply [of ib "''connect_reply''"] by (simp add: handle_shell_def Let_def info_requests_def)
  next
    case comm
    then show ?thesis by (rule answers_comm [OF assms(1)])
  next
    case other
    then show ?thesis by (rule answers_other [OF assms(1)])
  qed
qed

lemma failure_status:
  "msg_type req = ''execute_request'' \<Longrightarrow> json_get (failure_content req k e) ''status'' = Some (JStr ''error'')"
  by (simp add: failure_content_def error_content_def obj_extend_def)

section \<open>Properties\<close>

text \<open>
  C2. The life of an execution. Whatever the language does, the task of an execute request
  publishes busy first, then only messages under the request, then sends exactly one
  \<open>execute_reply\<close> to the requester, then publishes idle. Its result says failed
  exactly when the reply's status is error, and carries the request's
  \<open>stop_on_error\<close>; the task fails only with an error of kind \<open>Closed\<close>.
\<close>

theorem run_execution_lifecycle:
  assumes "encodes (svc_shared svc)" and "msg_type (message ib) = ''execute_request''"
  shows "\<exists>pubs body r.
    runs (run_execution svc ib ex k) w
      (busy (message ib) # pubs @
       [Rep (reply ib) (notice ''execute_reply'' body (message ib)), idle (message ib)]) r (world.more w) \<and>
    (\<forall>e\<in>set pubs. published_under (message ib) e) \<and>
    (case r of
       Inr d \<Rightarrow> failed d = (json_get body ''status'' = Some (JStr ''error'')) \<and>
         stop_on_error d = bool_field (content (message ib)) ''stop_on_error'' True
     | Inl e \<Rightarrow> kind e = Closed)"
proof -
  let ?req = "message ib"
  from run_execution_runs [OF assms(1) refl assms(2), of ex k w] obtain batches outcome where
    run: "runs (run_execution svc ib ex k) w
      (busy ?req # (execute_events ?req ex k batches outcome @ run_error_events ?req k outcome) @
       [Rep (reply ib) (notice ''execute_reply'' (run_reply ?req k outcome) ?req), idle ?req])
      (run_result ?req outcome) (world.more w)" by auto
  have pubs: "\<forall>e\<in>set (execute_events ?req ex k batches outcome @ run_error_events ?req k outcome).
      published_under ?req e"
    by (auto dest: execute_events_under simp: run_error_events_def split: sum.splits)
  have "case run_result ?req outcome of
      Inr d \<Rightarrow> failed d = (json_get (run_reply ?req k outcome) ''status'' = Some (JStr ''error'')) \<and>
        stop_on_error d = bool_field (content ?req) ''stop_on_error'' True
    | Inl e \<Rightarrow> kind e = Closed"
    using failure_status [OF assms(2)]
    by (auto simp: run_result_def run_reply_def outcome_reply_def Let_def split: sum.splits option.splits)
  with run pubs show ?thesis by blast
qed

text \<open>A concrete language, which prints the code it is given and fails on an empty cell.\<close>

definition demo_language :: language where
  "demo_language = default_session (\<lambda>_. Inl (error_new InvalidInput ''none''))
     (\<lambda>_ ex _. if er_code ex = '''' then ([], Inl (error_new InvalidInput ''empty cell''))
               else ([[Event (Stream ''stdout'' (er_code ex))]], Inr default_outcome))"

definition demo_shell_services :: shell_services where
  "demo_shell_services = \<lparr>svc_language = demo_language, svc_shared = demo_services\<rparr>"

theorem run_execution_lifecycle_witness:
  "\<exists>pubs body r.
    runs (run_execution demo_shell_services (demo_request ''execute_request'' (JObj [(''code'', JStr ''1'')]) [] 5)
        (to_execute_request (JObj [(''code'', JStr ''1'')])) 1) demo_world
      (busy (message (demo_request ''execute_request'' (JObj [(''code'', JStr ''1'')]) [] 5)) # pubs @
       [Rep 5 (notice ''execute_reply'' body (message (demo_request ''execute_request'' (JObj [(''code'', JStr ''1'')]) [] 5))),
        idle (message (demo_request ''execute_request'' (JObj [(''code'', JStr ''1'')]) [] 5))]) r ()"
proof -
  have "encodes (svc_shared demo_shell_services)" by (simp add: demo_shell_services_def demo_encodes)
  from run_execution_lifecycle [OF this, of "demo_request ''execute_request'' (JObj [(''code'', JStr ''1'')]) [] 5"
      "to_execute_request (JObj [(''code'', JStr ''1'')])" 1 demo_world]
  show ?thesis by (simp add: demo_world_def) blast
qed


end
