(* ===== verification/Heap.thy ===== *)
theory Heap
  imports Requests
begin

text \<open>
  The queue of a shell (\<open>QueueItem\<close> and the \<open>BinaryHeap\<close> around it in
  \<open>src/src/engine.rs\<close>): the order of its items, the heap operations the scheduler
  uses, and \<open>pop_runnable\<close>. The contract of the heap is the locale
  \<open>max_queue\<close>; the scheduler's facts rest on its interpretation.
\<close>

section \<open>The order of queue items\<close>

datatype ordering = Less | Equal | Greater

text \<open>
  \<open>f64::partial_cmp\<close> of two priorities: both are finite, so the comparison always
  answers and \<open>unwrap_or(Ordering::Equal)\<close> never applies.
\<close>

definition f64_cmp :: "f64 \<Rightarrow> f64 \<Rightarrow> ordering" where
  "f64_cmp a b = (if a < b then Less else if a = b then Equal else Greater)"

definition u64_cmp :: "u64 \<Rightarrow> u64 \<Rightarrow> ordering" where
  "u64_cmp a b = (if a < b then Less else if a = b then Equal else Greater)"

fun then_with :: "ordering \<Rightarrow> ordering \<Rightarrow> ordering" where
  "then_with Equal o' = o'"
| "then_with o1 o' = o1"

definition item_cmp :: "queue_item \<Rightarrow> queue_item \<Rightarrow> ordering" where
  "item_cmp a b =
     then_with (f64_cmp (priority a) (priority b)) (u64_cmp (item_order b) (item_order a))"

definition item_le :: "queue_item \<Rightarrow> queue_item \<Rightarrow> bool" where
  "item_le a b \<longleftrightarrow> item_cmp a b \<noteq> Greater"

section \<open>The heap\<close>

text \<open>
  \<open>std::collections::BinaryHeap\<close> as the list of its elements: \<open>pop\<close> takes out a
  greatest element.
\<close>

definition heap_push :: "queue_item \<Rightarrow> queue_item list \<Rightarrow> queue_item list" where
  "heap_push x q = x # q"

fun heap_greatest :: "queue_item \<Rightarrow> queue_item list \<Rightarrow> queue_item" where
  "heap_greatest m [] = m"
| "heap_greatest m (x # xs) = heap_greatest (if item_cmp x m = Greater then x else m) xs"

fun heap_pop :: "queue_item list \<Rightarrow> (queue_item \<times> queue_item list) option" where
  "heap_pop [] = None"
| "heap_pop (x # xs) = (let m = heap_greatest x xs in Some (m, remove1 m (x # xs)))"

definition heap_extend :: "queue_item list \<Rightarrow> queue_item list \<Rightarrow> queue_item list" where
  "heap_extend q xs = fold heap_push xs q"

text \<open>
  What the scheduler relies on: a push adds one element, a pop fails only on the empty
  heap, and otherwise takes out an element that is greatest in a total preorder.
\<close>

locale max_queue =
  fixes push :: "'a \<Rightarrow> 'q \<Rightarrow> 'q"
    and pop :: "'q \<Rightarrow> ('a \<times> 'q) option"
    and items :: "'q \<Rightarrow> 'a multiset"
    and le :: "'a \<Rightarrow> 'a \<Rightarrow> bool"
  assumes items_push: "items (push x q) = add_mset x (items q)"
    and pop_None: "pop q = None \<longleftrightarrow> items q = {#}"
    and pop_items: "pop q = Some (x, q') \<Longrightarrow> items q = add_mset x (items q')"
    and pop_greatest: "pop q = Some (x, q') \<Longrightarrow> y \<in># items q \<Longrightarrow> le y x"
    and le_trans: "le x y \<Longrightarrow> le y z \<Longrightarrow> le x z"
begin

lemma pop_size: "pop q = Some (x, q') \<Longrightarrow> size (items q') < size (items q)"
  by (auto dest: pop_items)

text \<open>The elements a queue gives up when it is popped until it is empty.\<close>

inductive drains :: "'q \<Rightarrow> 'a list \<Rightarrow> bool" where
  drained: "pop q = None \<Longrightarrow> drains q []"
| drain_step: "pop q = Some (x, q') \<Longrightarrow> drains q' xs \<Longrightarrow> drains q (x # xs)"

lemma drains_items: "drains q xs \<Longrightarrow> mset xs = items q"
  by (induction rule: drains.induct) (auto simp: pop_None pop_items)

lemma drains_sorted: "drains q xs \<Longrightarrow> sorted_wrt (\<lambda>x y. le y x) xs"
proof (induction rule: drains.induct)
  case (drain_step q x q' xs)
  have "le y x" if "y \<in> set xs" for y
  proof -
    from that have "y \<in># items q'" using drains_items [OF drain_step(2)] by (metis set_mset_mset)
    then have "y \<in># items q" using pop_items [OF drain_step(1)] by simp
    with drain_step(1) show ?thesis by (rule pop_greatest)
  qed
  with drain_step show ?case by simp
qed simp

text \<open>
  Popping past elements that do not fit leaves a greatest one among those that do: the
  elements in front of it are all unfit.
\<close>

lemma pop_past:
  assumes "pop q = Some (x, q')" and "\<not> fit x"
    and "y \<in># items q'" and "\<And>z. z \<in># items q' \<Longrightarrow> fit z \<Longrightarrow> le z y"
    and "z \<in># items q" and "fit z"
  shows "le z y"
  using assms pop_items [OF assms(1)] by auto

end

section \<open>Choosing what runs\<close>

record held_cell =
  held_item :: queue_item
  deadline :: nat

definition is_execute :: "queue_item \<Rightarrow> bool" where
  "is_execute item \<longleftrightarrow> msg_type (message (item_inbound item)) = ''execute_request''"

definition above_hold :: "held_cell option \<Rightarrow> queue_item \<Rightarrow> bool" where
  "above_hold held item =
     (case held of None \<Rightarrow> True | Some h \<Rightarrow> priority item > priority (held_item h))"

definition runnable :: "bool \<Rightarrow> held_cell option \<Rightarrow> queue_item \<Rightarrow> bool" where
  "runnable execution_active held item \<longleftrightarrow>
     \<not> is_execute item \<or> (\<not> execution_active \<and> above_hold held item)"

lemma heap_greatest_in: "heap_greatest m xs \<in> insert m (set xs)"
  by (induction m xs rule: heap_greatest.induct) (auto split: if_splits)

lemma heap_pop_length: "heap_pop q = Some (x, q') \<Longrightarrow> length q' < length q"
  using heap_greatest_in
  by (cases q) (auto simp: Let_def length_remove1 simp del: remove1.simps)

function pop_loop :: "bool \<Rightarrow> held_cell option \<Rightarrow> queue_item list \<Rightarrow> queue_item list \<Rightarrow>
    queue_item option \<times> queue_item list \<times> queue_item list" where
  "pop_loop execution_active held q parked =
     (case heap_pop q of
        None \<Rightarrow> (None, q, parked)
      | Some (item, q') \<Rightarrow>
          if runnable execution_active held item then (Some item, q', parked)
          else pop_loop execution_active held q' (parked @ [item]))"
  by pat_completeness auto
termination
  by (relation "measure (\<lambda>(_, _, q, _). length q)") (auto simp: heap_pop_length)

declare pop_loop.simps [simp del]

definition pop_runnable :: "queue_item list \<Rightarrow> bool \<Rightarrow> held_cell option \<Rightarrow>
    queue_item option \<times> queue_item list" where
  "pop_runnable q execution_active held =
     (let (found, q', parked) = pop_loop execution_active held q []
      in (found, heap_extend q' parked))"

text \<open>\<open>while let Some(item) = queue.pop()\<close>: all items, in the order they come out.\<close>

function heap_drain :: "queue_item list \<Rightarrow> queue_item list" where
  "heap_drain q = (case heap_pop q of None \<Rightarrow> [] | Some (item, q') \<Rightarrow> item # heap_drain q')"
  by pat_completeness auto
termination
  by (relation "measure length") (auto simp: heap_pop_length)

declare heap_drain.simps [simp del]

section \<open>Lemmas\<close>

lemma item_le_iff:
  "item_le a b \<longleftrightarrow> priority a < priority b \<or> (priority a = priority b \<and> item_order b \<le> item_order a)"
  by (auto simp: item_le_def item_cmp_def f64_cmp_def u64_cmp_def split: if_splits)

lemma item_le_refl [simp]: "item_le a a"
  by (simp add: item_le_iff)

lemma item_le_trans: "item_le a b \<Longrightarrow> item_le b c \<Longrightarrow> item_le a c"
  by (auto simp: item_le_iff)

lemma item_le_total: "item_le a b \<or> item_le b a"
  by (auto simp: item_le_iff)

lemma heap_greatest_le: "y \<in> insert m (set xs) \<Longrightarrow> item_le y (heap_greatest m xs)"
proof (induction m xs arbitrary: y rule: heap_greatest.induct)
  case (2 m x xs)
  let ?m = "if item_cmp x m = Greater then x else m"
  have "item_le m ?m" "item_le x ?m"
    using item_le_total [of m x] item_le_refl [of m] item_le_refl [of x]
    by (auto simp: item_le_def simp del: item_le_refl)
  moreover have "item_le ?m (heap_greatest ?m xs)" by (rule "2.IH") simp
  ultimately show ?case
    using "2.prems" "2.IH" by (auto intro: item_le_trans)
qed simp

lemma heap_pop_mset: "heap_pop q = Some (x, q') \<Longrightarrow> mset q = add_mset x (mset q')"
proof (cases q)
  case (Cons y ys)
  assume "heap_pop q = Some (x, q')"
  with Cons have "x = heap_greatest y ys" "q' = remove1 x (y # ys)" by (auto simp: Let_def)
  moreover from this have "x \<in> set q" using heap_greatest_in [of y ys] Cons by auto
  ultimately show ?thesis using Cons by (simp del: remove1.simps)
qed simp

interpretation bh: max_queue heap_push heap_pop mset item_le
proof (unfold_locales, goal_cases)
  case (2 q)
  then show ?case by (cases q) (simp_all add: Let_def)
next
  case (4 q x q' y)
  then show ?case by (cases q) (auto simp: Let_def intro: heap_greatest_le)
next
  case (5 x y z)
  then show ?case by (rule item_le_trans)
qed (simp_all add: heap_push_def heap_pop_mset)

lemma mset_heap_extend [simp]: "mset (heap_extend q xs) = mset q + mset xs"
  unfolding heap_extend_def by (induction xs arbitrary: q) (simp_all add: heap_push_def)

lemma set_heap_extend [simp]: "set (heap_extend q xs) = set q \<union> set xs"
  by (metis mset_heap_extend set_mset_mset set_mset_union)

lemma heap_drain_drains: "bh.drains q (heap_drain q)"
proof (induction q rule: heap_drain.induct)
  case (1 q)
  then show ?case
    by (subst heap_drain.simps) (auto intro: bh.drained bh.drain_step split: option.splits)
qed

lemma mset_heap_drain [simp]: "mset (heap_drain q) = mset q"
  by (rule bh.drains_items) (rule heap_drain_drains)

lemma set_heap_drain [simp]: "set (heap_drain q) = set q"
  by (metis mset_heap_drain set_mset_mset)

lemma heap_drain_sorted: "sorted_wrt (\<lambda>x y. item_le y x) (heap_drain q)"
  by (rule bh.drains_sorted) (rule heap_drain_drains)

text \<open>What the popping loop leaves: the parked items did not fit, the found one is greatest.\<close>

lemma pop_loop_spec:
  "pop_loop act h q parked = (found, q', parked') \<Longrightarrow>
   \<exists>skipped. parked' = parked @ skipped \<and> (\<forall>x\<in>set skipped. \<not> runnable act h x) \<and>
     (case found of
        None \<Rightarrow> mset q = mset skipped \<and> q' = []
      | Some item \<Rightarrow> runnable act h item \<and> mset q = add_mset item (mset skipped + mset q') \<and>
          (\<forall>y\<in>set q. runnable act h y \<longrightarrow> item_le y item))"
proof (induction act h q parked rule: pop_loop.induct)
  case (1 act h q parked)
  show ?case
  proof (cases "heap_pop q")
    case None
    with "1.prems" bh.pop_None [of q] show ?thesis by (simp add: pop_loop.simps [of act h q])
  next
    case (Some p)
    obtain item r where p: "p = (item, r)" by (cases p)
    note pop = Some [unfolded p]
    show ?thesis
    proof (cases "runnable act h item")
      case True
      have "\<forall>y\<in>set q. item_le y item" using bh.pop_greatest [OF pop] by simp
      with True "1.prems" pop heap_pop_mset [OF pop] show ?thesis
        by (auto simp: pop_loop.simps [of act h q])
    next
      case False
      with "1.prems" pop have "pop_loop act h r (parked @ [item]) = (found, q', parked')"
        by (simp add: pop_loop.simps [of act h q])
      from "1.IH" [OF pop refl False this] obtain skipped where
        s: "parked' = parked @ item # skipped" "\<forall>x\<in>set skipped. \<not> runnable act h x"
        and f: "case found of None \<Rightarrow> mset r = mset skipped \<and> q' = []
          | Some i \<Rightarrow> runnable act h i \<and> mset r = add_mset i (mset skipped + mset q') \<and>
              (\<forall>y\<in>set r. runnable act h y \<longrightarrow> item_le y i)" by auto
      have "set q = insert item (set r)" using heap_pop_mset [OF pop] by (metis set_mset_add_mset_insert set_mset_mset)
      with s f False heap_pop_mset [OF pop] show ?thesis
        by (intro exI [of _ "item # skipped"]) (auto split: option.splits)
    qed
  qed
qed

lemma pop_runnable_Some:
  assumes "pop_runnable q act h = (Some item, q')"
  shows "runnable act h item" and "mset q = add_mset item (mset q')"
    and "y \<in> set q \<Longrightarrow> runnable act h y \<Longrightarrow> item_le y item"
proof -
  obtain q1 parked where "pop_loop act h q [] = (Some item, q1, parked)" "q' = heap_extend q1 parked"
    using assms by (auto simp: pop_runnable_def split: prod.splits)
  with pop_loop_spec [OF this(1)] show "runnable act h item" "mset q = add_mset item (mset q')"
    "y \<in> set q \<Longrightarrow> runnable act h y \<Longrightarrow> item_le y item" by auto
qed

lemma pop_runnable_None:
  assumes "pop_runnable q act h = (None, q')"
  shows "mset q' = mset q" and "y \<in> set q \<Longrightarrow> \<not> runnable act h y"
proof -
  obtain q1 parked where "pop_loop act h q [] = (None, q1, parked)" "q' = heap_extend q1 parked"
    using assms by (auto simp: pop_runnable_def split: prod.splits)
  with pop_loop_spec [OF this(1)] show m: "mset q' = mset q" by auto
  from \<open>q' = _\<close> pop_loop_spec [OF \<open>pop_loop act h q [] = _\<close>] have "\<forall>x\<in>set parked. \<not> runnable act h x"
    "mset q = mset parked" by auto
  then show "y \<in> set q \<Longrightarrow> \<not> runnable act h y" by (metis set_mset_mset)
qed

end
