(* ===== verification/Scheduler.thy ===== *)
theory Scheduler
  imports Heap
begin

text \<open>
  The scheduler of one shell (\<open>Shell\<close> in \<open>src/src/engine.rs\<close>): its state, the
  operations on it, one pass of its loop, and the loop itself as a step relation in which
  requests and controls arrive, time passes and the running execution ends at any moment.
\<close>

section \<open>State\<close>

text \<open>A spawned task, as its \<open>JoinHandle\<close> shows it.\<close>

datatype 'a task = Pending | Finished "'a result" | Panicked string

record active_execution =
  act_inbound :: inbound
  act_request :: execute_request
  act_count :: u64
  act_interrupt :: execution_interrupt
  act_task :: "execution_done task"

datatype shell_control = Release string string nat | Interrupt | Stop

record shell = world +
  incoming :: "inbound list"
  controls :: "shell_control list"
  queue :: "queue_item list"
  next_order :: u64
  held :: "held_cell option"
  active :: "active_execution option"
  stopping :: bool
  interrupting :: bool
  execution_count :: u64

definition spawn_shell :: "world \<Rightarrow> shell" where
  "spawn_shell w =
     \<lparr>draws = draws w, clock = clock w, pending_inputs = pending_inputs w, trace = [],
      incoming = [], controls = [], queue = [], next_order = 0, held = None, active = None,
      stopping = False, interrupting = False, execution_count = 0\<rparr>"

section \<open>Operations\<close>

definition priority_of :: "inbound \<Rightarrow> f64" where
  "priority_of ib = field_or as_f64 (map_of (metadata (message ib)) ''priority'') 0"

definition wants_hold :: "inbound \<Rightarrow> bool" where
  "wants_hold ib = field_or as_bool (map_of (metadata (message ib)) ''hold'') False"

definition enqueue :: "inbound \<Rightarrow> shell \<Rightarrow> shell" where
  "enqueue ib s = s\<lparr>
     queue := heap_push \<lparr>priority = priority_of ib, item_order = next_order s, item_inbound = ib\<rparr> (queue s),
     next_order := next_order s + 1\<rparr>"

text \<open>\<open>while let Ok(inbound) = self.incoming.try_recv() { self.enqueue(inbound) }\<close>\<close>

definition receive_all :: "shell \<Rightarrow> shell" where
  "receive_all s = fold enqueue (incoming s) (s\<lparr>incoming := []\<rparr>)"

definition count_execution :: "execute_request \<Rightarrow> shell \<Rightarrow> u64 \<times> shell" where
  "count_execution ex s =
     (let s' = (if er_store_history ex \<and> \<not> er_silent ex
                then s\<lparr>execution_count := execution_count s + 1\<rparr> else s)
      in (execution_count s', s'))"

definition abort_pending :: "shell_services \<Rightarrow> (shell, unit) eng" where
  "abort_pending svc =
     bindE (modifyE receive_all) (\<lambda>_.
     bindE stateE (\<lambda>s.
     let items = heap_drain (queue s) in
     bindE (modifyE (\<lambda>s. s\<lparr>queue := []\<rparr>)) (\<lambda>_.
     bindE (eachE (\<lambda>item. whenE (is_execute item)
              (abort_execute (execution_count s) (svc_shared svc) (item_inbound item))) items) (\<lambda>_.
     modifyE (\<lambda>s. s\<lparr>queue := heap_extend (queue s) (filter (\<lambda>i. \<not> is_execute i) items)\<rparr>)))))"

text \<open>\<open>if let Some(active) = &self.active { active.interrupt.request()?; }\<close>\<close>

definition interrupt_active :: "shell_services \<Rightarrow> (shell, unit) eng" where
  "interrupt_active svc =
     bindE momentE (\<lambda>n.
     bindE stateE (\<lambda>s.
     case active s of
       None \<Rightarrow> returnE ()
     | Some a \<Rightarrow>
         let (r, i, called) = request (ks_call_handler (svc_shared svc) n) (act_interrupt a) in
         bindE (modifyE (\<lambda>s. s\<lparr>active := Some (a\<lparr>act_interrupt := i\<rparr>)\<rparr>)) (\<lambda>_.
         bindE (eachE (\<lambda>h. effectE (HandlerCalled h)) called) (\<lambda>_.
         bindE (liftE r) (\<lambda>_. returnE ())))))"

text \<open>\<open>self.held.take()\<close>, answered with \<open>finish_hold\<close>.\<close>

definition end_hold :: "shell_services \<Rightarrow> held_cell \<Rightarrow> string \<Rightarrow> (shell, bool) eng" where
  "end_hold svc h release_status =
     bindE (modifyE (\<lambda>s. s\<lparr>held := None\<rparr>)) (\<lambda>_.
     bindE stateE (\<lambda>s.
     finish_hold (execution_count s) (svc_shared svc) (held_item h) release_status))"

fun apply_control :: "shell_services \<Rightarrow> shell_control \<Rightarrow> (shell, unit) eng" where
  "apply_control svc (Release released release_status sender) =
     bindE stateE (\<lambda>s.
     case held s of
       Some h \<Rightarrow>
         if msg_id (message (item_inbound (held_item h))) = released
         then bindE (end_hold svc h release_status) (\<lambda>fld.
              bindE (whenE fld (abort_pending svc)) (\<lambda>_.
              effectE (Completed sender True)))
         else effectE (Completed sender False)
     | None \<Rightarrow> effectE (Completed sender False))"
| "apply_control svc Interrupt =
     bindE (modifyE (\<lambda>s. s\<lparr>interrupting := True\<rparr>)) (\<lambda>_.
     bindE (interrupt_active svc) (\<lambda>_.
     bindE stateE (\<lambda>s.
     bindE (case held s of
              Some h \<Rightarrow> bindE (end_hold svc h ''interrupt'') (\<lambda>_. returnE ())
            | None \<Rightarrow> returnE ()) (\<lambda>_.
     abort_pending svc))))"
| "apply_control svc Stop = modifyE (\<lambda>s. s\<lparr>stopping := True\<rparr>)"

definition execution_done :: "shell_services \<Rightarrow> execution_done \<Rightarrow> (shell, unit) eng" where
  "execution_done svc d =
     bindE (modifyE (\<lambda>s. s\<lparr>active := None\<rparr>)) (\<lambda>_.
     bindE stateE (\<lambda>s.
     whenE (failed d \<and> stop_on_error d \<and> \<not> interrupting s) (abort_pending svc)))"

text \<open>The execution that \<open>tokio::spawn(run_execution(..))\<close> starts.\<close>

definition start_execution :: "inbound \<Rightarrow> shell \<Rightarrow> shell" where
  "start_execution ib s =
     (let ex = to_execute_request (content (message ib)); (n, s') = count_execution ex s
      in s'\<lparr>active := Some \<lparr>act_inbound = ib, act_request = ex, act_count = n,
             act_interrupt = default_interrupt, act_task = Pending\<rparr>\<rparr>)"

definition handle_execute :: "shell_services \<Rightarrow> queue_item \<Rightarrow> (shell, bool) eng" where
  "handle_execute svc item =
     bindE stateE (\<lambda>s.
     let ib = item_inbound item; ks = svc_shared svc; missing = missing_fields (message ib) in
     if interrupting s
     then bindE (interrupt_execute (execution_count s) ks ib) (\<lambda>_. returnE False)
     else if missing \<noteq> []
     then bindE (reply_missing (execution_count s) ks (message ib) (reply ib) missing) (\<lambda>_.
          bindE (abort_pending svc) (\<lambda>_. returnE False))
     else if wants_hold ib
     then bindE (begin_hold (execution_count s) ks item) (\<lambda>_.
          bindE (modifyE (\<lambda>s. s\<lparr>held := Some \<lparr>held_item = item,
                   deadline = clock s + hold_timeout (ks_config ks)\<rparr>\<rparr>)) (\<lambda>_. returnE False))
     else bindE (modifyE (start_execution ib)) (\<lambda>_. returnE False))"

definition handle_other :: "shell_services \<Rightarrow> queue_item \<Rightarrow> (shell, bool) eng" where
  "handle_other svc item =
     bindE stateE (\<lambda>s.
     let ib = item_inbound item in
     bindE (tryE (handle_shell svc ib (execution_count s))) (\<lambda>r.
     case r of
       Inr outcome \<Rightarrow> returnE (outcome = Shutdown)
     | Inl e \<Rightarrow>
         bindE (report_failure svc (message ib) (reply ib) e (execution_count s)) (\<lambda>_.
         if kind e = Closed then liftE (Inl e) else returnE False)))"

definition handle_item :: "shell_services \<Rightarrow> queue_item \<Rightarrow> (shell, bool) eng" where
  "handle_item svc item =
     (if is_execute item then handle_execute svc item else handle_other svc item)"

section \<open>The loop\<close>

definition apply_controls :: "shell_services \<Rightarrow> (shell, unit) eng" where
  "apply_controls svc =
     bindE stateE (\<lambda>s.
     bindE (modifyE (\<lambda>s. s\<lparr>controls := []\<rparr>)) (\<lambda>_.
     eachE (apply_control svc) (controls s)))"

text \<open>What \<open>wait_execution\<close> returns, or \<open>None\<close> while it would go on waiting.\<close>

fun task_result :: "'a task \<Rightarrow> 'a result option" where
  "task_result Pending = None"
| "task_result (Finished r) = Some r"
| "task_result (Panicked e) = Some (Inl (from_join e))"

definition wait_execution :: "active_execution option \<Rightarrow> execution_done result option" where
  "wait_execution act = (case act of Some a \<Rightarrow> task_result (act_task a) | None \<Rightarrow> None)"

definition take_done :: "shell_services \<Rightarrow> (shell, unit) eng" where
  "take_done svc =
     bindE stateE (\<lambda>s.
     case wait_execution (active s) of
       Some r \<Rightarrow> bindE (liftE r) (execution_done svc)
     | None \<Rightarrow> returnE ())"

definition clear_interrupting :: "shell \<Rightarrow> shell" where
  "clear_interrupting s =
     (if interrupting s \<and> active s = None then s\<lparr>interrupting := False\<rparr> else s)"

datatype pass = Again | Wait | Exit

definition dispatch :: "shell_services \<Rightarrow> (shell, pass) eng" where
  "dispatch svc =
     bindE stateE (\<lambda>s.
     let (found, rest) = pop_runnable (queue s) (active s \<noteq> None) (held s) in
     bindE (modifyE (\<lambda>s. s\<lparr>queue := rest\<rparr>)) (\<lambda>_.
     case found of
       Some item \<Rightarrow>
         bindE (handle_item svc item) (\<lambda>stop.
         if stop then bindE (callE (lang_shutdown (svc_language svc))) (\<lambda>_. returnE Exit)
         else returnE Again)
     | None \<Rightarrow> returnE Wait))"

text \<open>The part of the loop before \<open>tokio::select!\<close>.\<close>

definition loop_pass :: "shell_services \<Rightarrow> (shell, pass) eng" where
  "loop_pass svc =
     bindE (modifyE receive_all) (\<lambda>_.
     bindE (apply_controls svc) (\<lambda>_.
     bindE (take_done svc) (\<lambda>_.
     bindE (modifyE clear_interrupting) (\<lambda>_.
     bindE stateE (\<lambda>s.
     if stopping s \<and> queue s = [] \<and> active s = None \<and> held s = None
     then bindE (callE (lang_shutdown (svc_language svc))) (\<lambda>_. returnE Exit)
     else dispatch svc)))))"

datatype wakeup = WakeIncoming | WakeControl | WakeDone | WakeHold

text \<open>
  The branches of \<open>tokio::select!\<close>. A receive on an empty channel completes only when
  every sender is gone.
\<close>

fun ready :: "wakeup \<Rightarrow> shell \<Rightarrow> bool" where
  "ready WakeIncoming s = True"
| "ready WakeControl s = True"
| "ready WakeDone s = (wait_execution (active s) \<noteq> None)"
| "ready WakeHold s = (case held s of Some h \<Rightarrow> deadline h \<le> clock s | None \<Rightarrow> False)"

fun select :: "shell_services \<Rightarrow> wakeup \<Rightarrow> (shell, unit) eng" where
  "select svc WakeIncoming =
     bindE stateE (\<lambda>s.
     case incoming s of
       [] \<Rightarrow> liftE (Inl (closed ''shell service''))
     | ib # rest \<Rightarrow> modifyE (\<lambda>s. enqueue ib (s\<lparr>incoming := rest\<rparr>)))"
| "select svc WakeControl =
     bindE stateE (\<lambda>s.
     case controls s of
       [] \<Rightarrow> liftE (Inl (closed ''shell control''))
     | x # rest \<Rightarrow> bindE (modifyE (\<lambda>s. s\<lparr>controls := rest\<rparr>)) (\<lambda>_. apply_control svc x))"
| "select svc WakeDone = take_done svc"
| "select svc WakeHold =
     bindE stateE (\<lambda>s.
     case held s of
       Some h \<Rightarrow> bindE (end_hold svc h ''timeout'') (\<lambda>_. abort_pending svc)
     | None \<Rightarrow> returnE ())"

datatype phase = Running | Waiting | Ended "unit result"

text \<open>
  A configuration is the phase of the loop, the requests accepted so far (a history
  variable, in the order of arrival) and the state.
\<close>

type_synonym shell_config = "phase \<times> inbound list \<times> shell"

fun ended :: "phase \<Rightarrow> bool" where
  "ended (Ended r) = True"
| "ended _ = False"

fun after_pass :: "pass result \<Rightarrow> phase" where
  "after_pass (Inl e) = Ended (Inl e)"
| "after_pass (Inr Exit) = Ended (Inr ())"
| "after_pass (Inr Wait) = Waiting"
| "after_pass (Inr Again) = Running"

fun after_select :: "unit result \<Rightarrow> phase" where
  "after_select (Inl e) = Ended (Inl e)"
| "after_select (Inr _) = Running"

definition set_task :: "active_execution \<Rightarrow> execution_done task \<Rightarrow> shell \<Rightarrow> shell" where
  "set_task a t s = s\<lparr>active := Some (a\<lparr>act_task := t\<rparr>)\<rparr>"

inductive shell_step :: "shell_services \<Rightarrow> shell_config \<Rightarrow> shell_config \<Rightarrow> bool"
  for svc :: shell_services where
  arrive: "\<not> ended ph \<Longrightarrow>
    shell_step svc (ph, acc, s) (ph, acc @ [ib], s\<lparr>incoming := incoming s @ [ib]\<rparr>)"
| control: "\<not> ended ph \<Longrightarrow>
    shell_step svc (ph, acc, s) (ph, acc, s\<lparr>controls := controls s @ [x]\<rparr>)"
| tick: "shell_step svc (ph, acc, s) (ph, acc, s\<lparr>clock := clock s + d\<rparr>)"
| register: "\<not> ended ph \<Longrightarrow> active s = Some a \<Longrightarrow> act_task a = Pending \<Longrightarrow>
    set_handler (ks_call_handler (svc_shared svc) (draws s)) h (act_interrupt a) = (r, i, called) \<Longrightarrow>
    shell_step svc (ph, acc, s)
      (ph, acc, s\<lparr>draws := Suc (draws s), active := Some (a\<lparr>act_interrupt := i\<rparr>)\<rparr>)"
| finish: "\<not> ended ph \<Longrightarrow> active s = Some a \<Longrightarrow> act_task a = Pending \<Longrightarrow>
    run_execution svc (act_inbound a) (act_request a) (act_count a) s = (r, s') \<Longrightarrow>
    shell_step svc (ph, acc, s) (ph, acc, set_task a (Finished r) s')"
| panic: "\<not> ended ph \<Longrightarrow> active s = Some a \<Longrightarrow> act_task a = Pending \<Longrightarrow>
    shell_step svc (ph, acc, s) (ph, acc, set_task a (Panicked e) s)"
| pass: "loop_pass svc s = (r, s') \<Longrightarrow>
    shell_step svc (Running, acc, s) (after_pass r, acc, s')"
| wake: "ready x s \<Longrightarrow> select svc x s = (r, s') \<Longrightarrow>
    shell_step svc (Waiting, acc, s) (after_select r, acc, s')"

definition shell_start :: "shell_config \<Rightarrow> bool" where
  "shell_start c \<longleftrightarrow> (\<exists>w. c = (Running, [], spawn_shell w))"

section \<open>Lemmas\<close>

lemma observed_shell_update [simp]:
  "observed (s\<lparr>incoming := a\<rparr>) = observed s" "observed (s\<lparr>controls := b\<rparr>) = observed s"
  "observed (s\<lparr>queue := c\<rparr>) = observed s" "observed (s\<lparr>next_order := d\<rparr>) = observed s"
  "observed (s\<lparr>held := e\<rparr>) = observed s" "observed (s\<lparr>active := f\<rparr>) = observed s"
  "observed (s\<lparr>stopping := g\<rparr>) = observed s" "observed (s\<lparr>interrupting := h\<rparr>) = observed s"
  "observed (s\<lparr>execution_count := k\<rparr>) = observed s"
  for s :: shell
  by (simp_all add: observed_def)

lemma runs_state: "runs (f s) s es r z \<Longrightarrow> runs (bindE stateE f) s es r z"
  by (simp add: runs_def bindE_def stateE_def)

lemma runs_modify:
  "observed (f s) = observed s \<Longrightarrow> clock (f s) = clock s \<Longrightarrow> world.more (f s) = z \<Longrightarrow>
   runs (modifyE f) s [] (Inr ()) z"
  by (simp add: runs_def modifyE_def)

lemma runs_modify_bind:
  "observed (f s) = observed s \<Longrightarrow> clock (f s) = clock s \<Longrightarrow> runs (g ()) (f s) es r z \<Longrightarrow>
   runs (bindE (modifyE f) g) s es r z"
  by (simp add: runs_def bindE_def modifyE_def)

lemma more_fields:
  fixes s t :: shell
  assumes "world.more s = world.more t"
  shows "incoming s = incoming t" "controls s = controls t" "queue s = queue t"
    "next_order s = next_order t" "held s = held t" "active s = active t"
    "stopping s = stopping t" "interrupting s = interrupting t" "execution_count s = execution_count t"
  using assms by (cases s; cases t; simp)+

lemma more_updates:
  fixes s t :: shell
  assumes "world.more s = world.more t"
  shows "world.more (s\<lparr>queue := c\<rparr>) = world.more (t\<lparr>queue := c\<rparr>)"
    "world.more (s\<lparr>held := e\<rparr>) = world.more (t\<lparr>held := e\<rparr>)"
    "world.more (s\<lparr>active := f\<rparr>) = world.more (t\<lparr>active := f\<rparr>)"
  using assms by (cases s; cases t; simp)+

text \<open>Receiving everything numbers the requests in the order of arrival.\<close>

definition item_of :: "u64 \<Rightarrow> inbound \<Rightarrow> queue_item" where
  "item_of n ib = \<lparr>priority = priority_of ib, item_order = n, item_inbound = ib\<rparr>"

lemma item_of_simps [simp]:
  "priority (item_of n ib) = priority_of ib" "item_order (item_of n ib) = n"
  "item_inbound (item_of n ib) = ib"
  by (simp_all add: item_of_def)

fun numbered :: "u64 \<Rightarrow> inbound list \<Rightarrow> queue_item list" where
  "numbered n [] = []"
| "numbered n (ib # ibs) = item_of n ib # numbered (n + 1) ibs"

lemma enqueue_eq: "enqueue ib s = s\<lparr>queue := heap_extend (queue s) [item_of (next_order s) ib],
    next_order := next_order s + 1\<rparr>"
  by (simp add: enqueue_def heap_extend_def item_of_def)

lemma fold_enqueue:
  "fold enqueue ibs s = s\<lparr>queue := heap_extend (queue s) (numbered (next_order s) ibs),
     next_order := next_order s + of_nat (length ibs)\<rparr>"
proof (induction ibs arbitrary: s)
  case Nil
  show ?case by (simp add: heap_extend_def)
next
  case (Cons ib ibs)
  have "fold enqueue (ib # ibs) s = fold enqueue ibs (enqueue ib s)" by simp
  also have "\<dots> = s\<lparr>queue := heap_extend (queue s) (numbered (next_order s) (ib # ibs)),
     next_order := next_order s + of_nat (length (ib # ibs))\<rparr>"
    unfolding Cons by (simp add: enqueue_eq heap_extend_def algebra_simps)
  finally show ?case .
qed

lemma receive_all_eq:
  "receive_all s = s\<lparr>incoming := [], queue := heap_extend (queue s) (numbered (next_order s) (incoming s)),
     next_order := next_order s + of_nat (length (incoming s))\<rparr>"
  by (simp add: receive_all_def fold_enqueue)

lemma receive_all_simps [simp]:
  "observed (receive_all s) = observed s" "clock (receive_all s) = clock s"
  "incoming (receive_all s) = []" "controls (receive_all s) = controls s"
  "held (receive_all s) = held s" "active (receive_all s) = active s"
  "stopping (receive_all s) = stopping s" "interrupting (receive_all s) = interrupting s"
  "execution_count (receive_all s) = execution_count s"
  by (simp_all add: receive_all_eq)

lemma map_numbered [simp]: "map item_inbound (numbered n ibs) = ibs"
  by (induction ibs arbitrary: n) simp_all

definition abort_events :: "u64 \<Rightarrow> queue_item \<Rightarrow> event list" where
  "abort_events n item = (let ib = item_inbound item in
     [busy (message ib), Rep (reply ib) (notice ''execute_reply'' (aborted_content n) (message ib)),
      idle (message ib)])"

text \<open>
  \<open>abort_pending\<close> answers every waiting execution, the greatest first, and keeps the
  other requests.
\<close>

lemma abort_pending_runs:
  assumes "encodes (svc_shared svc)"
    and t: "t = receive_all s"
  shows "runs (abort_pending svc) s
    (concat (map (abort_events (execution_count s)) (filter is_execute (heap_drain (queue t)))))
    (Inr ()) (world.more (t\<lparr>queue := heap_extend [] (filter (\<lambda>i. \<not> is_execute i) (heap_drain (queue t)))\<rparr>))"
proof -
  let ?n = "execution_count s" and ?items = "heap_drain (queue t)"
  let ?abort = "\<lambda>item. whenE (is_execute item) (abort_execute ?n (svc_shared svc) (item_inbound item))"
  have "emits (?abort item) (if is_execute item then abort_events ?n item else []) ()" for item
    using emits_abort_execute [OF assms(1)] by (auto simp: abort_events_def Let_def intro!: emit_rules)
  then have "emits (eachE ?abort ?items)
      (concat (map (\<lambda>item. if is_execute item then abort_events ?n item else []) ?items)) ()"
    by (rule emits_each)
  moreover have "concat (map (\<lambda>item. if is_execute item then abort_events ?n item else []) xs) =
      concat (map (abort_events ?n) (filter is_execute xs))" for xs by (induction xs) simp_all
  ultimately have each: "emits (eachE ?abort ?items)
      (concat (map (abort_events ?n) (filter is_execute ?items))) ()" by simp
  show ?thesis
    unfolding abort_pending_def Let_def
  proof (intro runs_modify_bind runs_state, goal_cases)
    case 5
    show ?case
      unfolding t [symmetric]
    proof (rule runs_bind_emits_last)
      show "emits (eachE (\<lambda>item. whenE (is_execute item)
          (abort_execute (execution_count t) (svc_shared svc) (item_inbound item))) ?items)
        (concat (map (abort_events ?n) (filter is_execute ?items))) ()"
        using each by (simp add: t)
    next
      fix w assume w: "world.more w = world.more (t\<lparr>queue := []\<rparr>)"
      show "runs (modifyE (\<lambda>s. s\<lparr>queue := heap_extend (queue s) (filter (\<lambda>i. \<not> is_execute i) ?items)\<rparr>)) w []
        (Inr ()) (world.more (t\<lparr>queue := heap_extend [] (filter (\<lambda>i. \<not> is_execute i) ?items)\<rparr>))"
        using more_fields(3) [OF w] more_updates(1) [OF w] by (intro runs_modify) simp_all
    qed
  qed simp_all
qed

lemma end_hold_runs:
  assumes "encodes (svc_shared svc)" and "ib = item_inbound (held_item h)"
  shows "runs (end_hold svc h st) s
    (hold_error_events (message ib) st @
     [Rep (reply ib) (notice ''execute_reply'' (hold_reply (execution_count s) st) (message ib)), idle (message ib)])
    (Inr (hold_error st \<noteq> None)) (world.more (s\<lparr>held := None\<rparr>))"
  unfolding end_hold_def
  using emits_finish_hold [OF assms(1), of "message ib" "held_item h"] assms(2)
  by (intro runs_modify_bind runs_state) (auto intro: emits_runs_eq)


end
