(* ===== verification/Accounting.thy ===== *)
theory Accounting
  imports Scheduler
begin

text \<open>
  What becomes of the execute requests a shell accepts: each is waiting, held, running or
  answered, and is answered once. The books of a shell balance in every reachable state;
  the only entry that can go missing is a held request.
\<close>

section \<open>Tickets\<close>

type_synonym ticket = "nat \<times> json_map"

definition execution :: "inbound \<Rightarrow> bool" where
  "execution ib \<longleftrightarrow> msg_type (message ib) = ''execute_request''"

definition ticket :: "inbound \<Rightarrow> ticket" where
  "ticket ib = (reply ib, header (message ib))"

definition tickets :: "inbound list \<Rightarrow> ticket multiset" where
  "tickets ibs = image_mset ticket (mset (filter execution ibs))"

text \<open>The replies to execute requests among the observed messages.\<close>

fun settled_by :: "event \<Rightarrow> ticket multiset" where
  "settled_by (Pub m) = {#}"
| "settled_by (Rep sink m) =
     (if field_or as_str (map_of (parent_header m) ''msg_type'') '''' = ''execute_request''
      then {#(sink, parent_header m)#} else {#})"

definition settled :: "event list \<Rightarrow> ticket multiset" where
  "settled es = sum_list (map settled_by es)"

text \<open>The requests that still wait for their reply.\<close>

definition held_tickets :: "held_cell option \<Rightarrow> ticket multiset" where
  "held_tickets hc = (case hc of None \<Rightarrow> {#} | Some h \<Rightarrow> tickets [item_inbound (held_item h)])"

definition active_tickets :: "active_execution option \<Rightarrow> ticket multiset" where
  "active_tickets ac =
     (case ac of
        None \<Rightarrow> {#}
      | Some a \<Rightarrow> (case act_task a of Finished r \<Rightarrow> {#} | _ \<Rightarrow> tickets [act_inbound a]))"

definition open_tickets :: "shell \<Rightarrow> ticket multiset" where
  "open_tickets s =
     tickets (incoming s) + tickets (map item_inbound (queue s)) + held_tickets (held s) +
     active_tickets (active s)"

section \<open>The books of a shell\<close>

text \<open>
  Requests are numbered as they arrive; those not yet numbered are in the channel, and the
  queue holds some of the numbered ones, each once.
\<close>

definition item_at :: "inbound list \<Rightarrow> nat \<Rightarrow> queue_item" where
  "item_at acc i = item_of (of_nat i) (acc ! i)"

definition arrivals_ok :: "inbound list \<Rightarrow> shell \<Rightarrow> bool" where
  "arrivals_ok acc s \<longleftrightarrow> (\<exists>n I. n \<le> length acc \<and> I \<subseteq> {..<n} \<and> incoming s = drop n acc \<and>
     next_order s = of_nat n \<and> mset (queue s) = image_mset (item_at acc) (mset_set I))"

definition held_ok :: "inbound list \<Rightarrow> shell \<Rightarrow> bool" where
  "held_ok acc s \<longleftrightarrow> (\<forall>h. held s = Some h \<longrightarrow>
     is_execute (held_item h) \<and> wants_hold (item_inbound (held_item h)) \<and>
     item_inbound (held_item h) \<in> set acc)"

definition active_ok :: "inbound list \<Rightarrow> shell \<Rightarrow> bool" where
  "active_ok acc s \<longleftrightarrow> (\<forall>a. active s = Some a \<longrightarrow>
     execution (act_inbound a) \<and> act_inbound a \<in> set acc \<and>
     act_request a = to_execute_request (content (message (act_inbound a))) \<and>
     act_count a = execution_count s)"

definition balanced :: "inbound list \<Rightarrow> ticket multiset \<Rightarrow> shell \<Rightarrow> bool" where
  "balanced acc paid s \<longleftrightarrow> (\<exists>lost. tickets acc = paid + open_tickets s + tickets lost \<and>
     (\<forall>ib\<in>set lost. wants_hold ib \<and> ib \<in> set acc))"

definition books :: "inbound list \<Rightarrow> ticket multiset \<Rightarrow> shell \<Rightarrow> bool" where
  "books acc paid s \<longleftrightarrow> arrivals_ok acc s \<and> held_ok acc s \<and> active_ok acc s \<and> balanced acc paid s"

definition shell_ok :: "inbound list \<Rightarrow> shell \<Rightarrow> bool" where
  "shell_ok acc s \<longleftrightarrow> books acc (settled (observed s)) s"

lemmas books_defs = books_def arrivals_ok_def held_ok_def active_ok_def balanced_def open_tickets_def

section \<open>Lemmas on tickets\<close>

lemma tickets_simps [simp]:
  "tickets [] = {#}" "tickets (xs @ ys) = tickets xs + tickets ys"
  "execution ib \<Longrightarrow> tickets (ib # ibs) = add_mset (ticket ib) (tickets ibs)"
  "\<not> execution ib \<Longrightarrow> tickets (ib # ibs) = tickets ibs"
  by (simp_all add: tickets_def)

lemma tickets_cong: "mset xs = mset ys \<Longrightarrow> tickets xs = tickets ys"
  by (simp add: tickets_def mset_filter)

lemma tickets_map_cong: "mset xs = mset ys \<Longrightarrow> tickets (map f xs) = tickets (map f ys)"
  by (rule tickets_cong) simp

lemma settled_simps [simp]:
  "settled [] = {#}" "settled (es @ fs) = settled es + settled fs"
  "settled (e # es) = settled_by e + settled es"
  by (simp_all add: settled_def)

lemma settled_concat: "settled (concat ess) = sum_list (map settled ess)"
  by (induction ess) simp_all

lemma settled_published: "(\<And>e. e \<in> set es \<Longrightarrow> published_under req e) \<Longrightarrow> settled es = {#}"
proof (induction es)
  case (Cons e es)
  then have "published_under req e" "settled es = {#}" by simp_all
  then show ?case by (auto simp: published_under_def)
qed simp

lemma settled_replies: "settled (replies es) = settled es"
proof (induction es)
  case (Cons e es)
  then show ?case by (cases e) simp_all
qed simp

lemma settled_state [simp]: "settled_by (busy req) = {#}" "settled_by (idle req) = {#}"
  by (simp_all add: busy_def idle_def)

lemma settled_reply [simp]:
  "settled_by (Rep (reply ib) (notice t b (message ib))) = tickets [ib]"
  by (simp add: tickets_def execution_def ticket_def msg_type_def)

declare settled_by.simps(2) [simp del]

lemma settled_abort: "settled (concat (map (abort_events n) items)) = tickets (map item_inbound items)"
proof (induction items)
  case (Cons item items)
  then show ?case
    by (cases "execution (item_inbound item)") (simp_all add: abort_events_def Let_def)
qed simp

lemma settled_hold_error [simp]: "settled (hold_error_events req st) = {#}"
  by (simp add: hold_error_events_def split: option.splits)

lemma settled_other: "\<not> execution ib \<Longrightarrow> answers ib es r \<Longrightarrow> settled es = {#}"
  using settled_replies [of es]
  by (auto simp: answers_def single_reply_def split: sum.splits if_splits)

lemma is_execute_iff: "is_execute item \<longleftrightarrow> execution (item_inbound item)"
  by (simp add: is_execute_def execution_def)

section \<open>Which changes keep the books\<close>

lemma books_more: "world.more s = world.more t \<Longrightarrow> books acc paid s \<longleftrightarrow> books acc paid t"
  using more_fields [of s t] by (simp add: books_defs)

lemma books_move:
  assumes "books acc paid s" and "paid + open_tickets s = paid' + open_tickets t"
    and "arrivals_ok acc t" and "held_ok acc t" and "active_ok acc t"
  shows "books acc paid' t"
  using assms by (auto simp: books_def balanced_def)

lemma mset_numbered:
  "n \<le> length acc \<Longrightarrow>
   mset (numbered (of_nat n) (drop n acc)) = image_mset (item_at acc) (mset_set {n..<length acc})"
proof (induction "length acc - n" arbitrary: n)
  case (Suc k)
  then have "n < length acc" "k = length acc - Suc n" by auto
  moreover from this have "{n..<length acc} = insert n {Suc n..<length acc}" by auto
  moreover have "of_nat n + 1 = (of_nat (Suc n) :: u64)" by simp
  ultimately show ?case
    using Suc(1) [of "Suc n"] by (simp add: Cons_nth_drop_Suc [symmetric] item_at_def del: of_nat_Suc)
qed simp

lemma books_receive_all: "books acc paid s \<Longrightarrow> books acc paid (receive_all s)"
proof -
  assume b: "books acc paid s"
  then obtain n I where n: "n \<le> length acc" "I \<subseteq> {..<n}" "incoming s = drop n acc"
    "next_order s = of_nat n" "mset (queue s) = image_mset (item_at acc) (mset_set I)"
    by (auto simp: books_defs)
  have "mset_set (I \<union> {n..<length acc}) = mset_set I + mset_set {n..<length acc}"
    using n(2) by (intro mset_set_Union) (auto intro: finite_subset)
  moreover have "of_nat n + of_nat (length acc - n) = (of_nat (length acc) :: u64)"
    using n(1) by (metis le_add_diff_inverse of_nat_add)
  ultimately have "arrivals_ok acc (receive_all s)"
    unfolding arrivals_ok_def using n mset_numbered [OF n(1)]
    by (intro exI [of _ "length acc"] exI [of _ "I \<union> {n..<length acc}"]) (auto simp: receive_all_eq)
  moreover have "tickets (map item_inbound (heap_extend (queue s) (numbered (next_order s) (incoming s)))) =
      tickets (map item_inbound (queue s @ numbered (next_order s) (incoming s)))"
    by (rule tickets_map_cong) simp
  then have "open_tickets (receive_all s) = open_tickets s"
    by (simp add: open_tickets_def receive_all_eq)
  ultimately show ?thesis
    using b by (intro books_move [OF b]) (simp_all add: books_def held_ok_def active_ok_def)
qed

text \<open>Taking some items out of the queue and counting them as paid.\<close>

lemma books_take:
  assumes "books acc paid s" and "mset (queue s) = mset taken + mset rest"
  shows "books acc (paid + tickets (map item_inbound taken)) (s\<lparr>queue := rest\<rparr>)"
proof -
  from assms(1) obtain n I where n: "n \<le> length acc" "I \<subseteq> {..<n}" "incoming s = drop n acc"
    "next_order s = of_nat n" "mset (queue s) = image_mset (item_at acc) (mset_set I)"
    by (auto simp: books_defs)
  have fin: "finite I" using n(2) by (rule finite_subset) simp
  from n(5) assms(2) have "image_mset (item_at acc) (mset_set I) = mset taken + mset rest" by simp
  from image_mset_eq_plusD [OF this] obtain A B where
    AB: "mset_set I = A + B" "mset rest = image_mset (item_at acc) B" by blast
  then have B: "B \<subseteq># mset_set I" "mset rest = image_mset (item_at acc) B" by simp_all
  have "count B i \<le> 1" for i
    using mset_subset_eq_count [OF B(1), of i] fin by (cases "i \<in> I") auto
  then have "B = mset_set (set_mset B)"
    by (intro multiset_eqI) (metis count_eq_zero_iff count_mset_set(1,3) finite_set_mset le_neq_implies_less less_one)
  moreover have "set_mset B \<subseteq> {..<n}" using set_mset_mono [OF B(1)] fin n(2) by auto
  ultimately have "arrivals_ok acc (s\<lparr>queue := rest\<rparr>)"
    unfolding arrivals_ok_def using n B(2)
    by (intro exI [of _ n] exI [of _ "set_mset B"]) auto
  moreover have "tickets (map item_inbound (queue s)) = tickets (map item_inbound (taken @ rest))"
    using assms(2) by (intro tickets_map_cong) simp
  then have "paid + tickets (map item_inbound taken) + open_tickets (s\<lparr>queue := rest\<rparr>) = paid + open_tickets s"
    by (simp add: open_tickets_def)
  ultimately show ?thesis
    using assms(1) by (intro books_move [OF assms(1)]) (simp_all add: books_def held_ok_def active_ok_def)
qed

lemma books_known:
  assumes "books acc paid s" and "x \<in> set (queue s)"
  shows "item_inbound x \<in> set acc"
proof -
  from assms(1) obtain n I where n: "n \<le> length acc" "I \<subseteq> {..<n}"
    "mset (queue s) = image_mset (item_at acc) (mset_set I)" by (auto simp: books_defs)
  moreover from n(2) have "finite I" by (rule finite_subset) simp
  moreover have "x \<in># mset (queue s)" using assms(2) by simp
  ultimately have "x \<in> item_at acc ` I" by simp
  with n show ?thesis by (auto simp: item_at_def intro!: nth_mem)
qed

lemma books_same [simp]:
  "books acc paid (s\<lparr>controls := a\<rparr>) = books acc paid s"
  "books acc paid (s\<lparr>stopping := b\<rparr>) = books acc paid s"
  "books acc paid (s\<lparr>interrupting := b\<rparr>) = books acc paid s"
  "books acc paid (s\<lparr>clock := m\<rparr>) = books acc paid s"
  "books acc paid (s\<lparr>draws := m\<rparr>) = books acc paid s"
  by (simp_all add: books_defs)

lemma books_end_hold:
  "books acc paid s \<Longrightarrow> held s = Some h \<Longrightarrow>
   books acc (paid + tickets [item_inbound (held_item h)]) (s\<lparr>held := None\<rparr>)"
  by (rule books_move, assumption)
    (simp_all add: books_def held_ok_def active_ok_def arrivals_ok_def open_tickets_def held_tickets_def)

lemma books_interrupted:
  "books acc paid s \<Longrightarrow> active s = Some a \<Longrightarrow> books acc paid (s\<lparr>active := Some (a\<lparr>act_interrupt := i\<rparr>)\<rparr>)"
  by (rule books_move, assumption)
    (simp_all add: books_def held_ok_def active_ok_def arrivals_ok_def open_tickets_def active_tickets_def
      split: task.split)

lemma books_done:
  "books acc paid s \<Longrightarrow> active s = Some a \<Longrightarrow> act_task a = Finished r \<Longrightarrow>
   books acc paid (s\<lparr>active := None\<rparr>)"
  by (rule books_move, assumption)
    (simp_all add: books_def held_ok_def active_ok_def arrivals_ok_def open_tickets_def active_tickets_def)

lemma books_finish:
  "books acc paid s \<Longrightarrow> active s = Some a \<Longrightarrow> act_task a = Pending \<Longrightarrow>
   books acc (paid + tickets [act_inbound a]) (set_task a (Finished r) s)"
  by (rule books_move, assumption)
    (simp_all add: books_def held_ok_def active_ok_def arrivals_ok_def open_tickets_def active_tickets_def
      set_task_def)

lemma books_panic:
  "books acc paid s \<Longrightarrow> active s = Some a \<Longrightarrow> act_task a = Pending \<Longrightarrow>
   books acc paid (set_task a (Panicked e) s)"
  by (rule books_move, assumption)
    (simp_all add: books_def held_ok_def active_ok_def arrivals_ok_def open_tickets_def active_tickets_def
      set_task_def)

lemma books_start:
  assumes "books acc (paid + tickets [ib]) s" and "active s = None" and "execution ib" and "ib \<in> set acc"
  shows "books acc paid (start_execution ib s)"
  using assms(1)
  by (rule books_move) (use assms in \<open>simp_all add: books_def held_ok_def active_ok_def arrivals_ok_def
      open_tickets_def active_tickets_def start_execution_def count_execution_def Let_def\<close>)

text \<open>Holding a request replaces the one held before, which is then lost.\<close>

lemma books_hold:
  assumes "books acc (paid + tickets [ib]) s" and "ib = item_inbound (held_item h)"
    and "execution ib" and "wants_hold ib" and "ib \<in> set acc"
  shows "books acc paid (s\<lparr>held := Some h\<rparr>)"
proof -
  from assms(1) obtain lost where lost: "tickets acc = paid + tickets [ib] + open_tickets s + tickets lost"
    "\<forall>ib\<in>set lost. wants_hold ib \<and> ib \<in> set acc" by (auto simp: books_def balanced_def)
  define old where "old = (case held s of None \<Rightarrow> [] | Some h \<Rightarrow> [item_inbound (held_item h)])"
  have "\<forall>ib\<in>set (old @ lost). wants_hold ib \<and> ib \<in> set acc"
    using assms(1) lost(2) by (auto simp: old_def books_def held_ok_def split: option.splits)
  moreover have "tickets acc = paid + open_tickets (s\<lparr>held := Some h\<rparr>) + tickets (old @ lost)"
    using lost(1) assms(2) by (auto simp: old_def open_tickets_def held_tickets_def split: option.splits)
  ultimately have "balanced acc paid (s\<lparr>held := Some h\<rparr>)" unfolding balanced_def by blast
  with assms show ?thesis
    by (simp add: books_def arrivals_ok_def held_ok_def active_ok_def is_execute_iff)
qed

lemma image_item_at:
  "I \<subseteq> {..<length acc} \<Longrightarrow>
   image_mset (item_at (acc @ [ib])) (mset_set I) = image_mset (item_at acc) (mset_set I)"
  by (rule image_mset_cong) (auto simp: item_at_def nth_append dest: finite_subset elem_mset_set [THEN iffD1, rotated])

lemma books_arrive:
  assumes "books acc paid s"
  shows "books (acc @ [ib]) paid (s\<lparr>incoming := incoming s @ [ib]\<rparr>)"
proof -
  from assms obtain n I where n: "n \<le> length acc" "I \<subseteq> {..<n}" "incoming s = drop n acc"
    "next_order s = of_nat n" "mset (queue s) = image_mset (item_at acc) (mset_set I)"
    by (auto simp: books_defs)
  then have "I \<subseteq> {..<length acc}" by auto
  from n image_item_at [OF this, of ib]
  have "arrivals_ok (acc @ [ib]) (s\<lparr>incoming := incoming s @ [ib]\<rparr>)"
    unfolding arrivals_ok_def by (intro exI [of _ n] exI [of _ I]) simp
  moreover from assms have "balanced (acc @ [ib]) paid (s\<lparr>incoming := incoming s @ [ib]\<rparr>)"
    by (fastforce simp: books_def balanced_def open_tickets_def)
  ultimately show ?thesis
    using assms by (auto simp: books_def held_ok_def active_ok_def split: option.splits)
qed

lemma books_enqueue:
  assumes "books acc paid s" and "incoming s = ib # rest"
  shows "books acc paid (enqueue ib (s\<lparr>incoming := rest\<rparr>))"
proof -
  from assms obtain n I where n: "n \<le> length acc" "I \<subseteq> {..<n}" "ib # rest = drop n acc"
    "next_order s = of_nat n" "mset (queue s) = image_mset (item_at acc) (mset_set I)"
    by (auto simp: books_defs)
  from n(3) have "n < length acc" by (metis drop_eq_Nil2 list.distinct(1) not_le)
  with n(3) have ib: "ib = acc ! n" "rest = drop (Suc n) acc"
    by (metis Cons_nth_drop_Suc list.inject)+
  have "finite I" "n \<notin> I" using n(2) by (auto intro: finite_subset)
  with n ib \<open>n < length acc\<close> have "arrivals_ok acc (enqueue ib (s\<lparr>incoming := rest\<rparr>))"
    unfolding arrivals_ok_def
    by (intro exI [of _ "Suc n"] exI [of _ "insert n I"]) (auto simp: enqueue_eq item_at_def)
  moreover have "open_tickets (enqueue ib (s\<lparr>incoming := rest\<rparr>)) = open_tickets s"
    using assms(2) by (cases "execution ib") (auto simp: open_tickets_def enqueue_def heap_push_def)
  ultimately show ?thesis
    using assms(1) by (intro books_move [OF assms(1)]) (simp_all add: books_def held_ok_def active_ok_def enqueue_def)
qed

section \<open>The contract of a ledger\<close>

text \<open>
  A property \<open>B paid s\<close> of the state and of the tickets already paid, such that every
  change the scheduler makes to its state keeps it once the replies sent with the change
  are counted as paid. What follows from these laws holds of every operation of the loop.
\<close>

definition kept :: "(ticket multiset \<Rightarrow> shell \<Rightarrow> bool) \<Rightarrow> shell \<Rightarrow> bool" where
  "kept B s \<longleftrightarrow> B (settled (observed s)) s"

locale ledger =
  fixes B :: "ticket multiset \<Rightarrow> shell \<Rightarrow> bool"
    and known :: "inbound \<Rightarrow> bool"
  assumes B_more: "world.more s = world.more t \<Longrightarrow> B paid s \<longleftrightarrow> B paid t"
    and B_controls [simp]: "B paid (s\<lparr>controls := cs\<rparr>) \<longleftrightarrow> B paid s"
    and B_stopping [simp]: "B paid (s\<lparr>stopping := b\<rparr>) \<longleftrightarrow> B paid s"
    and B_interrupting [simp]: "B paid (s\<lparr>interrupting := b\<rparr>) \<longleftrightarrow> B paid s"
    and B_receive_all: "B paid s \<Longrightarrow> B paid (receive_all s)"
    and B_enqueue: "B paid s \<Longrightarrow> incoming s = ib # later \<Longrightarrow> B paid (enqueue ib (s\<lparr>incoming := later\<rparr>))"
    and B_take: "B paid s \<Longrightarrow> mset (queue s) = mset taken + mset rest \<Longrightarrow>
      B (paid + tickets (map item_inbound taken)) (s\<lparr>queue := rest\<rparr>)"
    and B_known: "B paid s \<Longrightarrow> x \<in> set (queue s) \<Longrightarrow> known (item_inbound x)"
    and B_end_hold: "B paid s \<Longrightarrow> held s = Some h \<Longrightarrow>
      B (paid + tickets [item_inbound (held_item h)]) (s\<lparr>held := None\<rparr>)"
    and B_hold: "B (paid + tickets [ib]) s \<Longrightarrow> ib = item_inbound (held_item h) \<Longrightarrow>
      execution ib \<Longrightarrow> wants_hold ib \<Longrightarrow> known ib \<Longrightarrow> B paid (s\<lparr>held := Some h\<rparr>)"
    and B_interrupted: "B paid s \<Longrightarrow> active s = Some a \<Longrightarrow>
      B paid (s\<lparr>active := Some (a\<lparr>act_interrupt := i\<rparr>)\<rparr>)"
    and B_done: "B paid s \<Longrightarrow> active s = Some a \<Longrightarrow> act_task a = Finished r \<Longrightarrow>
      B paid (s\<lparr>active := None\<rparr>)"
    and B_start: "B (paid + tickets [ib]) s \<Longrightarrow> active s = None \<Longrightarrow> execution ib \<Longrightarrow> known ib \<Longrightarrow>
      B paid (start_execution ib s)"
begin

lemma kept_world [simp]: "kept B (s\<lparr>clock := m\<rparr>) \<longleftrightarrow> kept B s" "kept B (s\<lparr>draws := m\<rparr>) \<longleftrightarrow> kept B s"
  using B_more [of "s\<lparr>clock := m\<rparr>" s] B_more [of "s\<lparr>draws := m\<rparr>" s] by (simp_all add: kept_def)

lemma take_one:
  assumes "B paid s" and "mset (queue s) = add_mset item (mset rest)"
  shows "B (paid + tickets [item_inbound item]) (s\<lparr>queue := rest\<rparr>)" and "known (item_inbound item)"
proof -
  show "B (paid + tickets [item_inbound item]) (s\<lparr>queue := rest\<rparr>)"
    using B_take [OF assms(1), of "[item]" rest] assms(2) by simp
  have "item \<in># mset (queue s)" using assms(2) by simp
  then show "known (item_inbound item)" using B_known [OF assms(1)] by simp
qed

lemma kept_runs:
  assumes "runs m s es r (world.more t)" and "m s = (r', s')"
    and "B (settled (observed s) + settled es) t"
  shows "kept B s'"
  using assms B_more [of s' t] by (auto simp: runs_def kept_def)

lemma kept_same [simp]:
  "kept B (s\<lparr>controls := a\<rparr>) = kept B s"
  "kept B (s\<lparr>stopping := b\<rparr>) = kept B s"
  "kept B (s\<lparr>interrupting := b\<rparr>) = kept B s"
  by (simp_all add: kept_def)

lemma kept_effect: "observe x = [] \<Longrightarrow> maintains (kept B) (effectE x)"
proof (rule maintainsI)
  fix s r s' assume "observe x = []" "kept B s" "effectE x s = (r, s')"
  then show "kept B s'"
    using B_more [of s' s] by (auto simp: effectE_def kept_def)
qed

lemma kept_moment: "maintains (kept B) momentE"
  by (rule maintainsI) (auto simp: momentE_def)

lemma kept_call: "maintains (kept B) (callE f)"
  unfolding callE_def by (intro keeps kept_moment)

lemma kept_receive_all: "maintains (kept B) (modifyE receive_all)"
  by (rule maintains_modify) (simp add: kept_def B_receive_all)

lemma kept_abort_pending:
  assumes "encodes (svc_shared svc)"
  shows "maintains (kept B) (abort_pending svc)"
proof (rule maintainsI)
  fix s r s' assume ok: "kept B s" and run: "abort_pending svc s = (r, s')"
  let ?t = "receive_all s"
  let ?xs = "filter is_execute (heap_drain (queue ?t))"
    and ?ys = "filter (\<lambda>i. \<not> is_execute i) (heap_drain (queue ?t))"
  have "mset (queue ?t) = mset ?xs + mset (heap_extend [] ?ys)"
    by (simp add: mset_filter multiset_partition [symmetric])
  moreover have "B (settled (observed s)) ?t"
    using ok by (simp add: kept_def B_receive_all)
  ultimately have "B (settled (observed s) + tickets (map item_inbound ?xs))
      (?t\<lparr>queue := heap_extend [] ?ys\<rparr>)" by (intro B_take)
  then show "kept B s'"
    by (intro kept_runs [OF abort_pending_runs [OF assms refl] run]) (simp only: settled_abort)
qed

lemma kept_end_hold:
  assumes "encodes (svc_shared svc)" and "kept B s" and "held s = Some h"
    and "end_hold svc h st s = (r, s')"
  shows "kept B s'"
  using B_end_hold [of "settled (observed s)" s h] assms(2,3)
  by (intro kept_runs [OF end_hold_runs [OF assms(1) refl] assms(4)]) (simp add: kept_def)

lemma kept_interrupt_active: "maintains (kept B) (interrupt_active svc)"
  unfolding interrupt_active_def
proof (rule maintains_bind [OF kept_moment], rule maintains_state, goal_cases)
  case (1 n s r s')
  show ?case
  proof (cases "active s")
    case None
    with 1 show ?thesis by (simp add: returnE_def)
  next
    case (Some a)
    obtain q i called where
      req: "request (ks_call_handler (svc_shared svc) n) (act_interrupt a) = (q, i, called)"
      by (metis prod_cases3)
    have ok: "kept B (s\<lparr>active := Some (a\<lparr>act_interrupt := i\<rparr>)\<rparr>)"
      using 1(1) Some by (simp add: kept_def B_interrupted)
    from 1(2) Some req have "bindE (modifyE (\<lambda>s. s\<lparr>active := Some (a\<lparr>act_interrupt := i\<rparr>)\<rparr>)) (\<lambda>_.
        bindE (eachE (\<lambda>h. effectE (HandlerCalled h)) called) (\<lambda>_.
        bindE (liftE q) (\<lambda>_. returnE ()))) s = (r, s')" by simp
    then show ?thesis
    proof (rule then_maintains)
      show "kept B s1" if "modifyE (\<lambda>s. s\<lparr>active := Some (a\<lparr>act_interrupt := i\<rparr>)\<rparr>) s = (r1, s1)"
        for r1 s1 using that ok by (simp add: modifyE_def)
    qed (intro keeps kept_effect, simp)
  qed
qed

lemma kept_apply_control:
  assumes "encodes (svc_shared svc)"
  shows "maintains (kept B) (apply_control svc x)"
proof (cases x)
  case (Release i st n)
  have completed: "maintains (kept B) (effectE (Completed n b))" for b by (rule kept_effect) simp
  show ?thesis
    unfolding Release apply_control.simps
  proof (rule maintains_state, goal_cases)
    case (1 s r s')
    show ?case
    proof (cases "\<exists>h. held s = Some h \<and> msg_id (message (item_inbound (held_item h))) = i")
      case True
      then obtain h where h: "held s = Some h" "msg_id (message (item_inbound (held_item h))) = i" by blast
      with 1(2) have "bindE (end_hold svc h st) (\<lambda>fld. bindE (whenE fld (abort_pending svc)) (\<lambda>_.
          effectE (Completed n True))) s = (r, s')" by simp
      then show ?thesis
        by (rule then_maintains) (auto intro: kept_end_hold [OF assms 1(1) h(1)]
            intro!: keeps completed kept_abort_pending [OF assms])
    next
      case False
      with 1(2) have "effectE (Completed n False) s = (r, s')" by (auto split: option.splits if_splits)
      then show ?thesis using maintainsD [OF completed 1(1)] by blast
    qed
  qed
next
  case Interrupt
  have "maintains (kept B) (bindE stateE (\<lambda>s. bindE (case held s of
      Some h \<Rightarrow> bindE (end_hold svc h ''interrupt'') (\<lambda>_. returnE ()) | None \<Rightarrow> returnE ())
      (\<lambda>_. abort_pending svc)))"
  proof (rule maintains_state, erule then_maintains, goal_cases)
    case (1 s r s' r1 s1)
    show ?case
    proof (cases "held s")
      case None
      with 1 show ?thesis by (simp add: returnE_def)
    next
      case (Some h)
      with 1(2) have "bindE (end_hold svc h ''interrupt'') (\<lambda>_. returnE ()) s = (r1, s1)" by simp
      then show ?thesis
        by (rule then_maintains) (auto intro: kept_end_hold [OF assms 1(1) Some] maintains_return)
    qed
  qed (rule kept_abort_pending [OF assms])
  then show ?thesis
    unfolding Interrupt apply_control.simps
    by (intro maintains_bind [OF maintains_modify] maintains_bind [OF kept_interrupt_active]) simp_all
next
  case Stop
  then show ?thesis by (auto intro!: maintains_modify)
qed


lemma kept_take_done:
  assumes "encodes (svc_shared svc)"
  shows "maintains (kept B) (take_done svc)"
  unfolding take_done_def
proof (rule maintains_state, goal_cases)
  case (1 s r s')
  show ?case
  proof (cases "\<exists>a d. active s = Some a \<and> act_task a = Finished (Inr d)")
    case True
    then obtain a d where a: "active s = Some a" "act_task a = Finished (Inr d)" by blast
    with 1(2) have run: "execution_done svc d s = (r, s')"
      by (simp add: wait_execution_def bindE_def liftE_def)
    have "kept B (s\<lparr>active := None\<rparr>)"
      using 1(1) a B_done [of _ s a] by (simp add: kept_def)
    moreover have "maintains (kept B) (bindE stateE (\<lambda>s.
        whenE (failed d \<and> stop_on_error d \<and> \<not> interrupting s) (abort_pending svc)))"
      by (rule maintains_state)
        (auto intro: maintainsD [OF kept_abort_pending [OF assms]] simp: whenE_def returnE_def split: if_splits)
    ultimately show ?thesis
      using run unfolding execution_done_def by (elim then_maintains) (simp_all add: modifyE_def)
  next
    case False
    then have "s' = s" using 1(2)
      by (auto simp: wait_execution_def bindE_def liftE_def returnE_def
          split: option.splits sum.splits elim!: task_result.elims)
    with 1(1) show ?thesis by simp
  qed
qed

text \<open>Answering a request that was taken out of the queue.\<close>

lemma kept_answer:
  assumes "emits m es a" and "settled es = tickets [ib]"
    and "B (settled (observed s) + tickets [ib]) s" and "m s = (r, s')"
  shows "kept B s'"
  by (rule kept_runs [OF emits_runs [OF assms(1)] assms(4)]) (use assms(2,3) in simp)

lemma kept_handle_execute:
  assumes enc: "encodes (svc_shared svc)" and ex: "execution ib" and ib: "ib = item_inbound item"
    and acc: "known ib" and idle: "active s = None"
    and books: "B (settled (observed s) + tickets [ib]) s"
    and run: "handle_execute svc item s = (r, s')"
  shows "kept B s'"
proof -
  let ?n = "execution_count s" and ?ks = "svc_shared svc" and ?req = "message ib"
  note answer = kept_answer [OF _ _ books]
  consider (interrupting) "interrupting s"
    | (missing) "\<not> interrupting s" "missing_fields ?req \<noteq> []"
    | (hold) "\<not> interrupting s" "missing_fields ?req = []" "wants_hold ib"
    | (start) "\<not> interrupting s" "missing_fields ?req = []" "\<not> wants_hold ib" by blast
  then show ?thesis
  proof cases
    case interrupting
    with run have "bindE (interrupt_execute ?n ?ks ib) (\<lambda>_. returnE False) s = (r, s')"
      by (simp add: handle_execute_def bindE_def [of stateE] stateE_def ib Let_def)
    then show ?thesis
    proof (rule then_maintains)
      fix r1 s1 assume "interrupt_execute ?n ?ks ib s = (r1, s1)"
      then show "kept B s1" by (rule answer [OF emits_interrupt_execute [OF enc], rotated]) simp
    qed (rule maintains_return)
  next
    case missing
    have req: "msg_type ?req = ''execute_request''" using ex by (simp add: execution_def)
    from missing run have "bindE (reply_missing ?n ?ks ?req (reply ib) (missing_fields ?req)) (\<lambda>_.
        bindE (abort_pending svc) (\<lambda>_. returnE False)) s = (r, s')"
      by (simp add: handle_execute_def bindE_def [of stateE] stateE_def ib Let_def)
    then show ?thesis
    proof (rule then_maintains)
      fix r1 s1 assume "reply_missing ?n ?ks ?req (reply ib) (missing_fields ?req) s = (r1, s1)"
      then show "kept B s1"
        unfolding reply_missing_def by (rule answer [OF emits_reply_error [OF enc], rotated]) (simp add: req)
    qed (intro keeps kept_abort_pending [OF enc])
  next
    case hold
    with run have run: "bindE (begin_hold ?n ?ks item) (\<lambda>_. bindE (modifyE (\<lambda>s. s\<lparr>held :=
        Some \<lparr>held_item = item, deadline = clock s + hold_timeout (ks_config ?ks)\<rparr>\<rparr>)) (\<lambda>_. returnE False)) s = (r, s')"
      by (simp add: handle_execute_def bindE_def [of stateE] stateE_def ib Let_def)
    obtain s1 where s1: "begin_hold ?n ?ks item s = (Inr (), s1)" "world.more s1 = world.more s"
      "observed s1 = observed s @ busy ?req # input_events ?req (bool_field (content ?req) ''silent'' False)
        (str_field (content ?req) ''code'' '''') ?n"
      using emits_obtain [OF emits_begin_hold [OF enc, of ?req item]] ib by metis
    have "settled (observed s1) = settled (observed s)" unfolding s1(3) by (simp add: input_events_def)
    then have "B (settled (observed s1) + tickets [ib]) s1"
      using B_more [OF s1(2)] books by simp
    then have "B (settled (observed s1)) (s1\<lparr>held := Some h\<rparr>)" if "held_item h = item" for h
      using ex acc hold(3) ib that by (intro B_hold [of _ ib s1 h]) simp_all
    moreover from run s1(1) have "s' = s1\<lparr>held := Some \<lparr>held_item = item,
        deadline = clock s1 + hold_timeout (ks_config ?ks)\<rparr>\<rparr>"
      by (simp add: bindE_def modifyE_def returnE_def)
    ultimately show ?thesis by (simp add: kept_def)
  next
    case start
    have "observed (start_execution ib s) = observed s"
      by (simp add: start_execution_def count_execution_def Let_def)
    with start run B_start [OF books idle ex acc] show ?thesis
      by (auto simp: handle_execute_def bindE_def stateE_def modifyE_def returnE_def ib kept_def Let_def)
  qed
qed

lemma kept_handle_other:
  assumes enc: "encodes (svc_shared svc)" and ex: "\<not> execution ib" and ib: "ib = item_inbound item"
  shows "maintains (kept B) (handle_other svc item)"
  unfolding handle_other_def
proof (rule maintains_state, unfold Let_def ib [symmetric], erule then_maintains, goal_cases)
  case (1 s r s' r1 s1)
  obtain es r0 where es: "runs (handle_shell svc ib (execution_count s)) s es r0 (world.more s)" "answers ib es r0"
    using handle_shell_answers [OF enc ex [unfolded execution_def]] by blast
  from 1(2) show ?case
    by (rule kept_runs [OF runs_try [OF es(1)]])
      (use 1(1) settled_other [OF ex es(2)] in \<open>simp add: kept_def\<close>)
next
  case (2 s r s' r1)
  have "maintains (kept B) (report_failure svc (message ib) (reply ib) e n)" for e n
  proof (rule maintainsI)
    fix s r s' assume "kept B s" "report_failure svc (message ib) (reply ib) e n s = (r, s')"
    then show "kept B s'"
      using ex by (intro kept_answer [OF emits_report_failure [OF enc], of _ _ _ _ ib])
        (auto simp: kept_def execution_def)
  qed
  then show ?case by (cases r1) (auto intro!: keeps)
qed

lemma kept_handle_item:
  assumes "encodes (svc_shared svc)" and "kept B s"
    and "pop_runnable (queue s) (active s \<noteq> None) (held s) = (Some item, rest)"
    and "handle_item svc item (s\<lparr>queue := rest\<rparr>) = (r, s')"
  shows "kept B s'"
proof -
  let ?ib = "item_inbound item"
  note pop = pop_runnable_Some [OF assms(3)]
  have b: "B (settled (observed s) + tickets [?ib]) (s\<lparr>queue := rest\<rparr>)" "known ?ib"
    using take_one [OF _ pop(2)] assms(2) by (auto simp: kept_def)
  show ?thesis
  proof (cases "execution ?ib")
    case True
    with pop(1) have "active s = None" by (simp add: runnable_def is_execute_iff)
    with True b assms(1,4) show ?thesis
      by (intro kept_handle_execute [of svc ?ib item "s\<lparr>queue := rest\<rparr>" r s'])
        (simp_all add: handle_item_def is_execute_iff)
  next
    case False
    with b(1) have "kept B (s\<lparr>queue := rest\<rparr>)" by (simp add: kept_def)
    with False assms(4) show ?thesis
      using maintainsD [OF kept_handle_other [OF assms(1) False refl]]
      by (simp add: handle_item_def is_execute_iff)
  qed
qed

lemma kept_dispatch:
  assumes "encodes (svc_shared svc)"
  shows "maintains (kept B) (dispatch svc)"
  unfolding dispatch_def
proof (rule maintains_state, goal_cases)
  case (1 s r s')
  obtain found rest where pop: "pop_runnable (queue s) (active s \<noteq> None) (held s) = (found, rest)" by fastforce
  show ?case
  proof (cases found)
    case None
    with pop have "mset (queue s) = mset [] + mset rest" using pop_runnable_None(1) by simp
    with B_take [of "settled (observed s)" s "[]" rest] 1(1) have "kept B (s\<lparr>queue := rest\<rparr>)"
      by (simp add: kept_def)
    with 1(2) pop None show ?thesis by (simp add: bindE_def modifyE_def returnE_def)
  next
    case (Some item)
    with 1(2) pop have "bindE (handle_item svc item) (\<lambda>stop.
        if stop then bindE (callE (lang_shutdown (svc_language svc))) (\<lambda>_. returnE Exit)
        else returnE Again) (s\<lparr>queue := rest\<rparr>) = (r, s')" by (simp add: bindE_def modifyE_def)
    then show ?thesis
    proof (rule then_maintains)
      fix r1 s1 assume "handle_item svc item (s\<lparr>queue := rest\<rparr>) = (r1, s1)"
      then show "kept B s1" by (rule kept_handle_item [OF assms 1(1) pop [unfolded Some]])
    qed (auto intro!: keeps kept_call)
  qed
qed

lemma kept_loop_pass:
  assumes "encodes (svc_shared svc)"
  shows "maintains (kept B) (loop_pass svc)"
proof -
  have "maintains (kept B) (apply_controls svc)"
    unfolding apply_controls_def
  proof (rule maintains_state, erule then_maintains)
    show "maintains (kept B) (eachE (apply_control svc) (controls s))" for s
      by (intro maintains_each kept_apply_control [OF assms])
  qed (simp add: modifyE_def)
  moreover have "maintains (kept B) (modifyE clear_interrupting)"
    by (rule maintains_modify) (simp add: clear_interrupting_def)
  moreover have "maintains (kept B) (bindE stateE (\<lambda>s.
     if stopping s \<and> queue s = [] \<and> active s = None \<and> held s = None
     then bindE (callE (lang_shutdown (svc_language svc))) (\<lambda>_. returnE Exit)
     else dispatch svc))" (is "maintains _ (bindE stateE ?f)")
  proof (rule maintains_state)
    fix s r s' assume "kept B s" "?f s s = (r, s')"
    moreover have "maintains (kept B) (?f s)"
      by (auto intro!: keeps kept_call kept_dispatch [OF assms])
    ultimately show "kept B s'" by (rule maintainsD [rotated])
  qed
  ultimately show ?thesis
    unfolding loop_pass_def
    by (intro maintains_bind [OF kept_receive_all] maintains_bind [of _ "apply_controls _"]
        maintains_bind [OF kept_take_done [OF assms]] maintains_bind [of _ "modifyE clear_interrupting"])
qed

lemma kept_select:
  assumes "encodes (svc_shared svc)"
  shows "maintains (kept B) (select svc x)"
proof (cases x)
  case WakeIncoming
  show ?thesis
    unfolding WakeIncoming select.simps
  proof (rule maintains_state, goal_cases)
    case (1 s r s')
    then show ?case
      using B_enqueue [of "settled (observed s)" s]
      by (cases "incoming s") (auto simp: liftE_def modifyE_def kept_def enqueue_def)
  qed
next
  case WakeControl
  show ?thesis
    unfolding WakeControl select.simps
  proof (rule maintains_state, goal_cases)
    case (1 s r s')
    then show ?case
      using maintainsD [OF kept_apply_control [OF assms], of "s\<lparr>controls := tl (controls s)\<rparr>"]
      by (cases "controls s") (auto simp: liftE_def modifyE_def bindE_def)
  qed
next
  case WakeDone
  then show ?thesis using kept_take_done [OF assms] by simp
next
  case WakeHold
  show ?thesis
    unfolding WakeHold select.simps
  proof (rule maintains_state, goal_cases)
    case (1 s r s')
    then show ?case
    proof (cases "held s")
      case (Some h)
      with 1(2) have "bindE (end_hold svc h ''timeout'') (\<lambda>_. abort_pending svc) s = (r, s')" by simp
      then show ?thesis
        by (rule then_maintains)
          (auto intro: kept_end_hold [OF assms 1(1) Some] kept_abort_pending [OF assms])
    qed (simp add: returnE_def)
  qed
qed

end

interpretation bk: ledger "books acc" "\<lambda>ib. ib \<in> set acc" for acc
proof (unfold_locales, goal_cases)
  case 1 then show ?case by (rule books_more)
next
  case 5 then show ?case by (rule books_receive_all)
next
  case 6 then show ?case by (rule books_enqueue)
next
  case 7 then show ?case by (rule books_take)
next
  case 8 then show ?case by (rule books_known)
next
  case 9 then show ?case by (rule books_end_hold)
next
  case 10 then show ?case by (rule books_hold)
next
  case 11 then show ?case by (rule books_interrupted)
next
  case 12 then show ?case by (rule books_done)
next
  case 13 then show ?case by (rule books_start)
qed simp_all

text \<open>An unfinished execution is another such property: nothing the loop does displaces it.\<close>

definition running :: "active_execution \<Rightarrow> shell \<Rightarrow> bool" where
  "running a s \<longleftrightarrow> (\<exists>b. active s = Some b \<and> act_inbound b = act_inbound a \<and>
     act_request b = act_request a \<and> act_count b = act_count a \<and> act_task b = Pending)"

interpretation rn: ledger "\<lambda>_. running a" "\<lambda>_. True" for a
proof (unfold_locales, goal_cases)
  case (1 s t) then show ?case by (simp add: running_def more_fields(6) [of s t])
next
  case 6 then show ?case by (simp add: running_def enqueue_def)
qed (auto simp: running_def)

text \<open>
  And so is the execution count: it stays as it is until an execution that stores history
  starts, which takes the next count.
\<close>

definition counted :: "u64 \<Rightarrow> shell \<Rightarrow> bool" where
  "counted n s \<longleftrightarrow> execution_count s = n \<or>
     (execution_count s = n + 1 \<and> (\<exists>a. active s = Some a \<and> act_count a = n + 1 \<and>
        er_store_history (act_request a) \<and> \<not> er_silent (act_request a) \<and> act_task a = Pending))"

interpretation cn: ledger "\<lambda>_. counted n" "\<lambda>_. True" for n
proof (unfold_locales, goal_cases)
  case (1 s t) then show ?case by (simp add: counted_def more_fields(6,9) [of s t])
next
  case 6 then show ?case by (simp add: counted_def enqueue_def)
next
  case 13 then show ?case by (auto simp: counted_def start_execution_def count_execution_def Let_def)
qed (auto simp: counted_def)

lemma shell_ok_kept: "shell_ok acc = kept (books acc)"
  by (auto simp: shell_ok_def kept_def)

lemma shell_ok_finish:
  assumes "encodes (svc_shared svc)" and "shell_ok acc s" and "active s = Some a" and "act_task a = Pending"
    and "run_execution svc (act_inbound a) (act_request a) (act_count a) s = (r, s')"
  shows "shell_ok acc (set_task a (Finished r) s')" and "world.more s' = world.more s"
proof -
  let ?ib = "act_inbound a"
  have ex: "msg_type (message ?ib) = ''execute_request''"
    using assms(2,3) by (simp add: shell_ok_def books_def active_ok_def execution_def)
  from run_execution_runs [OF assms(1) refl ex, of "act_request a" "act_count a" s] assms(5)
  obtain batches outcome where more: "world.more s' = world.more s" and obs: "observed s' = observed s @
      busy (message ?ib) # execute_events (message ?ib) (act_request a) (act_count a) batches outcome @
      run_error_events (message ?ib) (act_count a) outcome @
      [Rep (reply ?ib) (notice ''execute_reply'' (run_reply (message ?ib) (act_count a) outcome) (message ?ib)),
       idle (message ?ib)]" by (auto simp: runs_def)
  have "settled (execute_events (message ?ib) (act_request a) (act_count a) batches outcome) = {#}"
    by (rule settled_published, erule execute_events_under)
  then have settled: "settled (observed s') = settled (observed s) + tickets [?ib]"
    by (simp add: obs run_error_events_def split: sum.splits)
  have "books acc (settled (observed s)) s'" "active s' = Some a"
    using assms(2,3) books_more [OF more] more_fields(6) [OF more] by (simp_all add: shell_ok_def)
  from books_finish [OF this assms(4), of r] show "shell_ok acc (set_task a (Finished r) s')"
    by (simp add: shell_ok_def settled set_task_def)
  show "world.more s' = world.more s" by (rule more)
qed

end
