(* ===== verification/Shell_Loop.thy ===== *)
theory Shell_Loop
  imports Accounting
begin

text \<open>
  The loop of a shell over all its runs: the invariant of every reachable configuration,
  and the properties of the scheduler that follow from it.
\<close>

section \<open>The invariant of the loop\<close>

text \<open>A loop that waits has nothing it could run, and is not about to stop.\<close>

definition nothing_runnable :: "shell \<Rightarrow> bool" where
  "nothing_runnable s \<longleftrightarrow>
     (\<forall>x\<in>set (queue s). \<not> runnable (active s \<noteq> None) (held s) x) \<and>
     (interrupting s \<longrightarrow> active s \<noteq> None) \<and>
     \<not> (stopping s \<and> queue s = [] \<and> active s = None \<and> held s = None)"

fun shell_inv :: "shell_services \<Rightarrow> shell_config \<Rightarrow> bool" where
  "shell_inv svc (ph, acc, s) \<longleftrightarrow>
     (encodes (svc_shared svc) \<longrightarrow> shell_ok acc s \<and> (ph = Waiting \<longrightarrow> nothing_runnable s))"

lemma bindE_Inr:
  assumes "bindE m f s = (Inr b, s')"
  obtains a s1 where "m s = (Inr a, s1)" "f a s1 = (Inr b, s')"
  using assms by (auto simp: bindE_def split: prod.splits sum.splits)

text \<open>Where a pass that got as far as choosing a request stood when it chose.\<close>

lemma loop_pass_Inr:
  assumes "loop_pass svc s = (Inr p, s')"
  obtains t where "interrupting t \<longrightarrow> active t \<noteq> None"
    "(if stopping t \<and> queue t = [] \<and> active t = None \<and> held t = None
      then bindE (callE (lang_shutdown (svc_language svc))) (\<lambda>_. returnE Exit) else dispatch svc) t = (Inr p, s')"
proof -
  let ?last = "\<lambda>s. if stopping s \<and> queue s = [] \<and> active s = None \<and> held s = None
    then bindE (callE (lang_shutdown (svc_language svc))) (\<lambda>_. returnE Exit) else dispatch svc"
  obtain u where "bindE (modifyE clear_interrupting) (\<lambda>_. bindE stateE ?last) u = (Inr p, s')"
    using assms unfolding loop_pass_def by (auto elim!: bindE_Inr [of "modifyE receive_all"]
        bindE_Inr [of "apply_controls svc"] bindE_Inr [of "take_done svc"])
  then have "?last (clear_interrupting u) (clear_interrupting u) = (Inr p, s')"
    by (simp add: bindE_def modifyE_def stateE_def)
  then show thesis
    by (rule that [rotated]) (simp add: clear_interrupting_def)
qed

lemma dispatch_wait:
  assumes "dispatch svc t = (Inr Wait, s')"
  obtains rest where "pop_runnable (queue t) (active t \<noteq> None) (held t) = (None, rest)" "s' = t\<lparr>queue := rest\<rparr>"
  using assms unfolding dispatch_def
  by (elim bindE_Inr)
    (auto simp: stateE_def modifyE_def returnE_def split: prod.splits option.splits if_splits elim!: bindE_Inr)

lemma loop_pass_wait:
  assumes "loop_pass svc s = (Inr Wait, s')"
  shows "nothing_runnable s'"
proof -
  obtain t where t: "interrupting t \<longrightarrow> active t \<noteq> None" and
    run: "(if stopping t \<and> queue t = [] \<and> active t = None \<and> held t = None
      then bindE (callE (lang_shutdown (svc_language svc))) (\<lambda>_. returnE Exit) else dispatch svc) t = (Inr Wait, s')"
    using loop_pass_Inr [OF assms] by blast
  have live: "\<not> (stopping t \<and> queue t = [] \<and> active t = None \<and> held t = None)"
  proof
    assume "stopping t \<and> queue t = [] \<and> active t = None \<and> held t = None"
    with run have "bindE (callE (lang_shutdown (svc_language svc))) (\<lambda>_. returnE Exit) t = (Inr Wait, s')" by simp
    then show False by (elim bindE_Inr) (simp add: returnE_def)
  qed
  with run have "dispatch svc t = (Inr Wait, s')" by (simp split: if_splits)
  then obtain rest where rest: "pop_runnable (queue t) (active t \<noteq> None) (held t) = (None, rest)"
    "s' = t\<lparr>queue := rest\<rparr>" by (rule dispatch_wait)
  have "mset rest = mset (queue t)" using pop_runnable_None(1) [OF rest(1)] .
  then have "set rest = set (queue t)" "rest = [] \<longleftrightarrow> queue t = []" by (metis set_mset_mset, auto)
  with t live rest(2) pop_runnable_None(2) [OF rest(1)] show ?thesis by (auto simp: nothing_runnable_def)
qed

lemma after_select_wait [simp]: "after_select r \<noteq> Waiting"
  by (cases r) simp_all

lemma after_pass_wait [simp]: "after_pass r = Waiting \<longleftrightarrow> r = Inr Wait"
  by (cases r rule: after_pass.cases) simp_all

lemma shell_inv_step:
  assumes "shell_inv svc c" and "shell_step svc c c'"
  shows "shell_inv svc c'"
  using assms(2,1)
proof (induction rule: shell_step.induct)
  case (arrive ph acc s ib)
  then show ?case by (auto simp: shell_ok_def books_arrive nothing_runnable_def)
next
  case (register ph s a h r i called acc)
  then show ?case by (auto simp: shell_ok_def books_interrupted nothing_runnable_def)
next
  case (finish ph s a r s' acc)
  have "nothing_runnable (set_task a (Finished r) s')" if "world.more s' = world.more s" "nothing_runnable s"
    using that more_fields [OF that(1)] finish(2) by (simp add: nothing_runnable_def set_task_def)
  with finish shell_ok_finish [OF _ _ finish(2-4)] show ?case by auto
next
  case (panic ph s a acc e)
  then have "shell_ok acc (set_task a (Panicked e) s)" if "shell_ok acc s"
    using that books_panic [of acc _ s a e] by (simp add: shell_ok_def set_task_def)
  with panic show ?case by (auto simp: nothing_runnable_def set_task_def)
next
  case (pass s r s' acc)
  then show ?case by (auto simp: shell_ok_kept intro: loop_pass_wait maintainsD [OF bk.kept_loop_pass])
next
  case (wake x s r s' acc)
  then show ?case by (auto simp: shell_ok_kept intro: maintainsD [OF bk.kept_select])
qed (simp_all add: nothing_runnable_def shell_ok_def)


lemma shell_inv_start: "shell_start c \<Longrightarrow> shell_inv svc c"
  by (auto simp: shell_start_def shell_ok_def books_defs spawn_shell_def observed_def held_tickets_def
      active_tickets_def intro!: exI [of _ "{}"] exI [of _ "[]"])

interpretation lp: inductive_invariant shell_start "shell_step svc" "shell_inv svc" for svc
  by unfold_locales (rule shell_inv_start, assumption, rule shell_inv_step)

lemma reachable_ok:
  assumes "encodes (svc_shared svc)" and "reachable shell_start (shell_step svc) (ph, acc, s)"
  shows "shell_ok acc s" and "ph = Waiting \<Longrightarrow> nothing_runnable s"
  using lp.inv_reachable [OF assms(2)] assms(1) by auto

lemma reachable_books:
  assumes "encodes (svc_shared svc)" and "reachable shell_start (shell_step svc) (ph, acc, s)"
  shows "\<exists>lost. tickets acc = settled (observed s) + open_tickets s + tickets lost \<and>
    (\<forall>ib\<in>set lost. wants_hold ib \<and> ib \<in> set acc)"
  using reachable_ok(1) [OF assms] by (simp add: shell_ok_def books_def balanced_def)

lemma nothing_runnable_queue:
  assumes "nothing_runnable s" and "x \<in> set (queue s)"
  shows "is_execute x" and "active s = None \<Longrightarrow> \<exists>h. held s = Some h \<and> priority x \<le> priority (held_item h)"
  using assms by (auto simp: nothing_runnable_def runnable_def above_hold_def not_less split: option.splits)

text \<open>A concrete run: a cell arrives, is started, ends, and the loop goes back to waiting.\<close>

definition demo_cell :: inbound where
  "demo_cell = demo_request ''execute_request'' (JObj [(''code'', JStr ''1'')]) [] 5"

definition demo_arrived :: shell where
  "demo_arrived = (spawn_shell demo_world)\<lparr>incoming := [demo_cell]\<rparr>"

definition demo_started :: shell where
  "demo_started = snd (loop_pass demo_shell_services demo_arrived)"

definition demo_active :: active_execution where
  "demo_active = \<lparr>act_inbound = demo_cell, act_request = to_execute_request (content (message demo_cell)),
     act_count = 1, act_interrupt = default_interrupt, act_task = Pending\<rparr>"

definition demo_finished :: shell where
  "demo_finished =
     (case run_execution demo_shell_services (act_inbound demo_active) (act_request demo_active)
        (act_count demo_active) demo_started of
        (r, s) \<Rightarrow> set_task demo_active (Finished r) s)"

definition demo_idle :: shell where
  "demo_idle = snd (loop_pass demo_shell_services demo_finished)"

lemma demo_shell_encodes: "encodes (svc_shared demo_shell_services)"
  by (simp add: demo_shell_services_def demo_encodes)

lemma demo_passes:
  "loop_pass demo_shell_services demo_arrived = (Inr Again, demo_started)"
  "active demo_started = Some demo_active"
  "loop_pass demo_shell_services demo_finished = (Inr Wait, demo_idle)"
  by code_simp+

lemma demo_reachable:
  "reachable shell_start (shell_step demo_shell_services) (Running, [demo_cell], demo_arrived)"
  "reachable shell_start (shell_step demo_shell_services) (Running, [demo_cell], demo_started)"
  "reachable shell_start (shell_step demo_shell_services) (Waiting, [demo_cell], demo_idle)"
proof -
  let ?R = "reachable shell_start (shell_step demo_shell_services)"
  have "?R (Running, [], spawn_shell demo_world)" by (rule reach_start) (auto simp: shell_start_def)
  then have "?R (Running, [] @ [demo_cell],
      (spawn_shell demo_world)\<lparr>incoming := incoming (spawn_shell demo_world) @ [demo_cell]\<rparr>)"
    by (rule reach_step) (rule arrive, simp)
  then show arrived: "?R (Running, [demo_cell], demo_arrived)"
    by (simp add: demo_arrived_def spawn_shell_def)
  have "shell_step demo_shell_services (Running, [demo_cell], demo_arrived)
      (after_pass (Inr Again), [demo_cell], demo_started)" by (rule pass) (rule demo_passes(1))
  with arrived show started: "?R (Running, [demo_cell], demo_started)" by (auto intro: reach_step)
  obtain r s where run: "run_execution demo_shell_services (act_inbound demo_active)
      (act_request demo_active) (act_count demo_active) demo_started = (r, s)" by fastforce
  have "shell_step demo_shell_services (Running, [demo_cell], demo_started)
      (Running, [demo_cell], set_task demo_active (Finished r) s)"
    by (rule finish [OF _ demo_passes(2) _ run]) (simp_all add: demo_active_def)
  then have "shell_step demo_shell_services (Running, [demo_cell], demo_started)
      (Running, [demo_cell], demo_finished)" by (simp add: demo_finished_def run)
  with started have "?R (Running, [demo_cell], demo_finished)" by (rule reach_step)
  moreover have "shell_step demo_shell_services (Running, [demo_cell], demo_finished)
      (after_pass (Inr Wait), [demo_cell], demo_idle)" by (rule pass) (rule demo_passes(3))
  ultimately show "?R (Waiting, [demo_cell], demo_idle)" by (auto intro: reach_step)
qed

text \<open>Two further states: three requests that have just arrived, and one that has to wait.\<close>

definition demo_urgent :: inbound where
  "demo_urgent = demo_request ''execute_request'' (JObj [(''code'', JStr ''2'')])
     [(''priority'', JNum (Float 9))] 6"

definition demo_three :: shell where
  "demo_three = (spawn_shell demo_world)\<lparr>incoming := [demo_cell, demo_urgent, demo_cell]\<rparr>"

definition demo_blocked :: shell where
  "demo_blocked = snd (loop_pass demo_shell_services (demo_started\<lparr>incoming := [demo_urgent]\<rparr>))"

lemma reachable_pass:
  "reachable shell_start (shell_step svc) (Running, acc, s) \<Longrightarrow> loop_pass svc s = (r, s') \<Longrightarrow>
   reachable shell_start (shell_step svc) (after_pass r, acc, s')"
  by (erule reach_step, rule pass)

lemma reachable_arrive:
  "reachable shell_start (shell_step svc) (ph, acc, s) \<Longrightarrow> \<not> ended ph \<Longrightarrow>
   reachable shell_start (shell_step svc) (ph, acc @ [ib], s\<lparr>incoming := incoming s @ [ib]\<rparr>)"
  by (erule reach_step, rule arrive)

lemma demo_three_reachable:
  "reachable shell_start (shell_step demo_shell_services) (Running, [demo_cell, demo_urgent, demo_cell], demo_three)"
  using reachable_arrive [OF reachable_arrive [OF demo_reachable(1), of demo_urgent], of demo_cell]
  by (simp add: demo_arrived_def demo_three_def)

lemma demo_blocked_reachable:
  "reachable shell_start (shell_step demo_shell_services) (Waiting, [demo_cell, demo_urgent], demo_blocked)"
proof -
  have "incoming demo_started = []" by code_simp
  then have "reachable shell_start (shell_step demo_shell_services)
      (Running, [demo_cell, demo_urgent], demo_started\<lparr>incoming := [demo_urgent]\<rparr>)"
    using reachable_arrive [OF demo_reachable(2), of demo_urgent] by simp
  moreover have "loop_pass demo_shell_services (demo_started\<lparr>incoming := [demo_urgent]\<rparr>) = (Inr Wait, demo_blocked)"
    by code_simp
  ultimately show ?thesis using reachable_pass by fastforce
qed

lemma word_of_nat_le_iff_small:
  "i < 2 ^ 64 \<Longrightarrow> j < 2 ^ 64 \<Longrightarrow> of_nat i \<le> (of_nat j :: u64) \<longleftrightarrow> i \<le> j"
  by (simp add: word_le_nat_alt unat_of_nat take_bit_nat_eq_self)

section \<open>Properties\<close>

text \<open>
  C1. Every execute request that a shell accepts is accounted for, in every reachable
  state: it is waiting, held, running, or answered, and answered at most once (the replies
  sent and the requests still open together are among the accepted requests). The only
  request that can go missing is one that asked to be held.
\<close>

theorem executions_accounted:
  assumes "encodes (svc_shared svc)" and "reachable shell_start (shell_step svc) (ph, acc, s)"
  shows "\<exists>lost. tickets acc = settled (observed s) + open_tickets s + tickets lost \<and>
    (\<forall>ib\<in>set lost. wants_hold ib \<and> ib \<in> set acc)"
  using reachable_books [OF assms] .

theorem executions_accounted_witness:
  "\<exists>lost. tickets [demo_cell] = settled (observed demo_started) + open_tickets demo_started + tickets lost \<and>
    (\<forall>ib\<in>set lost. wants_hold ib \<and> ib \<in> set [demo_cell])"
  by (rule executions_accounted [OF demo_shell_encodes demo_reachable(2)])

text \<open>
  C3. A shell that waits with nothing running, nothing held and nothing in its channel has
  answered every execute request it accepted, exactly once, as long as none of them asked
  to be held.
\<close>

theorem idle_shell_owes_nothing:
  assumes "encodes (svc_shared svc)" and "reachable shell_start (shell_step svc) (Waiting, acc, s)"
    and "incoming s = []" and "active s = None" and "held s = None"
    and "\<forall>ib\<in>set acc. \<not> wants_hold ib"
  shows "settled (observed s) = tickets acc"
proof -
  from reachable_ok(2) [OF assms(1,2) refl] have "queue s = []"
    using nothing_runnable_queue(2) [of s] assms(4,5) by (cases "queue s") auto
  with assms(3-5) have "open_tickets s = {#}"
    by (simp add: open_tickets_def held_tickets_def active_tickets_def)
  moreover obtain lost where "tickets acc = settled (observed s) + open_tickets s + tickets lost"
    "\<forall>ib\<in>set lost. wants_hold ib \<and> ib \<in> set acc" using reachable_books [OF assms(1,2)] by blast
  moreover from this(2) assms(6) have "lost = []" by (cases lost) auto
  ultimately show ?thesis by simp
qed

theorem idle_shell_owes_nothing_witness:
  "settled (observed demo_idle) = tickets [demo_cell] \<and> tickets [demo_cell] = {#(5, header (message demo_cell))#}"
proof
  show "settled (observed demo_idle) = tickets [demo_cell]"
    by (rule idle_shell_owes_nothing [OF demo_shell_encodes demo_reachable(3)]) code_simp+
qed (simp add: demo_cell_def tickets_def execution_def ticket_def)

text \<open>
  C5. Executions are serial. While an execution has not ended, no step of the shell
  replaces it, restarts it or changes its request or its count: whatever arrives, whatever
  controls are applied and whatever else is handled, it stays the active execution.
\<close>

theorem running_execution_kept:
  assumes "encodes (svc_shared svc)" and "reachable shell_start (shell_step svc) (ph, acc, s)"
    and "shell_step svc (ph, acc, s) (ph', acc', s')"
    and "active s = Some a" and "act_task a = Pending"
  shows "\<exists>b. active s' = Some b \<and> act_inbound b = act_inbound a \<and> act_request b = act_request a \<and>
    act_count b = act_count a"
proof -
  have run: "kept (\<lambda>_. running a) s" using assms(4,5) by (simp add: kept_def running_def)
  from assms(3) show ?thesis
  proof cases
    case (finish c r t)
    with shell_ok_finish(2) [OF assms(1) reachable_ok(1) [OF assms(1,2)]] assms(4)
    show ?thesis by (auto simp: set_task_def)
  next
    case (pass r)
    then have "loop_pass svc s = (r, s')" by simp
    from maintainsD [OF rn.kept_loop_pass [OF assms(1)] run this] show ?thesis
      by (auto simp: kept_def running_def)
  next
    case (wake x r)
    then have "select svc x s = (r, s')" by simp
    from maintainsD [OF rn.kept_select [OF assms(1)] run this] show ?thesis
      by (auto simp: kept_def running_def)
  qed (use assms(4,5) in \<open>auto simp: set_task_def\<close>)
qed


theorem running_execution_kept_witness:
  "\<exists>b. active (demo_started\<lparr>controls := controls demo_started @ [Stop]\<rparr>) = Some b \<and>
    act_inbound b = act_inbound demo_active \<and> act_request b = act_request demo_active \<and>
    act_count b = act_count demo_active"
  by (rule running_execution_kept [OF demo_shell_encodes demo_reachable(2) control])
    (simp_all add: demo_passes demo_active_def)


text \<open>
  C6. Requests run by priority and then in the order of arrival. The request a shell takes
  from its queue is the one with the highest priority among those that may run, and among
  equal priorities the one that arrived first (as long as fewer than two to the 64
  requests arrived).
\<close>

theorem arrival_order:
  assumes "encodes (svc_shared svc)" and "reachable shell_start (shell_step svc) (ph, acc, s)"
    and "length acc \<le> 2 ^ 64"
    and "pop_runnable (queue (receive_all s)) (active s \<noteq> None) (held s) = (Some item, rest)"
  shows "\<exists>i<length acc. item = item_at acc i \<and>
    (\<forall>j<length acc. j \<noteq> i \<and> item_at acc j \<in> set (queue (receive_all s)) \<and> runnable (active s \<noteq> None) (held s) (item_at acc j) \<longrightarrow>
       priority_of (acc ! j) < priority_of (acc ! i) \<or>
       (priority_of (acc ! j) = priority_of (acc ! i) \<and> i < j))"
proof -
  note pop = pop_runnable_Some [OF assms(4)]
  have "books acc (settled (observed s)) (receive_all s)"
    using reachable_ok(1) [OF assms(1,2)] by (simp add: shell_ok_def books_receive_all)
  then obtain n I where n: "n \<le> length acc" "I \<subseteq> {..<n}"
    "mset (queue (receive_all s)) = image_mset (item_at acc) (mset_set I)" by (auto simp: books_defs)
  from n(2) have "finite I" by (rule finite_subset) simp
  moreover have "item \<in># mset (queue (receive_all s))" using pop(2) by simp
  ultimately obtain i where i: "i \<in> I" "item = item_at acc i" unfolding n(3) by auto
  with n(1,2) have "i < length acc" by auto
  have "priority_of (acc ! j) < priority_of (acc ! i) \<or> priority_of (acc ! j) = priority_of (acc ! i) \<and> i < j"
    if "j < length acc" "j \<noteq> i" "item_le (item_at acc j) item" for j
  proof -
    have "of_nat i \<le> (of_nat j :: u64) \<longleftrightarrow> i \<le> j"
      using that(1) \<open>i < length acc\<close> assms(3) by (intro word_of_nat_le_iff_small) simp_all
    with that i(2) show ?thesis by (auto simp: item_le_iff item_at_def)
  qed
  with pop(3) i(2) \<open>i < length acc\<close> show ?thesis by blast
qed

theorem arrival_order_witness:
  "\<exists>i<length [demo_cell, demo_urgent, demo_cell].
     item_at [demo_cell, demo_urgent, demo_cell] 1 = item_at [demo_cell, demo_urgent, demo_cell] i \<and>
     (\<forall>j<length [demo_cell, demo_urgent, demo_cell]. j \<noteq> i \<and>
        item_at [demo_cell, demo_urgent, demo_cell] j \<in> set (queue (receive_all demo_three)) \<and>
        runnable (active demo_three \<noteq> None) (held demo_three) (item_at [demo_cell, demo_urgent, demo_cell] j) \<longrightarrow>
        priority_of ([demo_cell, demo_urgent, demo_cell] ! j) < priority_of ([demo_cell, demo_urgent, demo_cell] ! i) \<or>
        (priority_of ([demo_cell, demo_urgent, demo_cell] ! j) = priority_of ([demo_cell, demo_urgent, demo_cell] ! i) \<and> i < j))"
proof (rule arrival_order [OF demo_shell_encodes demo_three_reachable])
  show "pop_runnable (queue (receive_all demo_three)) (active demo_three \<noteq> None) (held demo_three) =
      (Some (item_at [demo_cell, demo_urgent, demo_cell] 1),
       [item_at [demo_cell, demo_urgent, demo_cell] 2, item_at [demo_cell, demo_urgent, demo_cell] 0])" by code_simp
qed simp

text \<open>
  C12. The loop never waits on work it could do. While it waits, every queued request is an
  execute request, and if there is one, then an execution is active or a request is held
  whose priority none of them exceeds.
\<close>

theorem waiting_queue_blocked:
  assumes "encodes (svc_shared svc)" and "reachable shell_start (shell_step svc) (Waiting, acc, s)"
  shows "(\<forall>x\<in>set (queue s). is_execute x) \<and>
    (queue s = [] \<or> active s \<noteq> None \<or>
     (\<exists>h. held s = Some h \<and> (\<forall>x\<in>set (queue s). priority x \<le> priority (held_item h))))"
proof -
  note idle = reachable_ok(2) [OF assms refl]
  show ?thesis
    using nothing_runnable_queue [OF idle] by (cases "held s"; cases "queue s") auto
qed

theorem waiting_queue_blocked_witness:
  "queue demo_blocked \<noteq> [] \<and> list_all is_execute (queue demo_blocked) \<and> active demo_blocked \<noteq> None"
proof (intro conjI)
  show "queue demo_blocked \<noteq> []" "active demo_blocked \<noteq> None" by code_simp+
  show "list_all is_execute (queue demo_blocked)"
    using waiting_queue_blocked [OF demo_shell_encodes demo_blocked_reachable] by (simp add: list_all_iff)
qed




end
