(* ===== verification/Shell_Ops.thy ===== *)
theory Shell_Ops
  imports Accounting
begin

text \<open>
  What single operations of a shell do: interrupting it, ending an execution, handling a
  request that is not an execution, and holding one.
\<close>

section \<open>Lemmas\<close>

lemma abort_pending_effect:
  assumes "encodes (svc_shared svc)" and "abort_pending svc s = (r, s')"
  shows "r = Inr ()"
    and "world.more s' = world.more ((receive_all s)\<lparr>queue := queue s'\<rparr>)"
    and "mset (queue s') = filter_mset (\<lambda>i. \<not> is_execute i) (mset (queue (receive_all s)))"
    and "\<exists>xs. observed s' = observed s @ concat (map (abort_events (execution_count s)) xs) \<and>
      mset xs = filter_mset is_execute (mset (queue (receive_all s))) \<and> sorted_wrt (\<lambda>x y. item_le y x) xs"
proof -
  let ?items = "heap_drain (queue (receive_all s))"
  let ?q = "heap_extend [] (filter (\<lambda>i. \<not> is_execute i) ?items)"
  let ?xs = "filter is_execute ?items"
  from abort_pending_runs [OF assms(1) refl, of s] have
    r: "r = Inr ()" and obs: "observed s' = observed s @ concat (map (abort_events (execution_count s)) ?xs)"
    and more: "world.more s' = world.more ((receive_all s)\<lparr>queue := ?q\<rparr>)"
    unfolding runs_def assms(2) by simp_all
  show "r = Inr ()" by (rule r)
  have q: "queue s' = ?q" using more_fields(3) [OF more] by simp
  show "world.more s' = world.more ((receive_all s)\<lparr>queue := queue s'\<rparr>)" unfolding q by (rule more)
  show "mset (queue s') = filter_mset (\<lambda>i. \<not> is_execute i) (mset (queue (receive_all s)))"
    unfolding q by (simp add: mset_filter)
  have "sorted_wrt (\<lambda>x y. item_le y x) ?xs" by (rule sorted_wrt_filter) (rule heap_drain_sorted)
  moreover have "mset ?xs = filter_mset is_execute (mset (queue (receive_all s)))" by (simp add: mset_filter)
  ultimately show "\<exists>xs. observed s' = observed s @ concat (map (abort_events (execution_count s)) xs) \<and>
      mset xs = filter_mset is_execute (mset (queue (receive_all s))) \<and> sorted_wrt (\<lambda>x y. item_le y x) xs"
    using obs by blast
qed

lemma tickets_receive_all:
  "tickets (map item_inbound (queue (receive_all s))) = tickets (map item_inbound (queue s)) + tickets (incoming s)"
proof -
  have "tickets (map item_inbound (queue (receive_all s))) =
      tickets (map item_inbound (queue s @ numbered (next_order s) (incoming s)))"
    by (rule tickets_map_cong) (simp add: receive_all_eq)
  then show ?thesis by simp
qed

lemma tickets_filter_execute: "tickets (map item_inbound (filter is_execute xs)) = tickets (map item_inbound xs)"
  by (induction xs) (auto simp: is_execute_iff tickets_def)

lemma abort_pending_settles:
  assumes "encodes (svc_shared svc)" and "abort_pending svc s = (r, s')"
  shows "settled (observed s') = settled (observed s) + tickets (incoming s) + tickets (map item_inbound (queue s))"
proof -
  obtain xs where xs: "observed s' = observed s @ concat (map (abort_events (execution_count s)) xs)"
    "mset xs = mset (filter is_execute (queue (receive_all s)))"
    using abort_pending_effect(4) [OF assms] by (auto simp: mset_filter)
  have "tickets (map item_inbound xs) = tickets (map item_inbound (queue (receive_all s)))"
    using tickets_map_cong [OF xs(2), of item_inbound] by (simp add: tickets_filter_execute)
  with xs(1) show ?thesis by (simp add: settled_abort tickets_receive_all)
qed

text \<open>The token of the active execution after an interrupt.\<close>

definition interrupted_active :: "active_execution option \<Rightarrow> active_execution option" where
  "interrupted_active = map_option (\<lambda>a. a\<lparr>act_interrupt := (act_interrupt a)\<lparr>requested := True\<rparr>\<rparr>)"

lemma emits_called: "emits (eachE (\<lambda>h. effectE (HandlerCalled h)) hs) [] ()"
proof (induction hs)
  case (Cons h hs)
  then show ?case unfolding eachE.simps by (rule emits_bind_eq [OF emits_effect]) simp
qed (simp add: emits_return)

lemma more_draws_active: "world.more (s\<lparr>draws := n, active := x\<rparr>) = world.more (s\<lparr>active := x\<rparr>)" for s :: shell
  by (cases s) simp

lemma more_same_active: "world.more (s\<lparr>active := active s\<rparr>) = world.more s" for s :: shell
  by (cases s) simp

lemma interrupt_active_runs:
  assumes "\<And>n h. ks_call_handler (svc_shared svc) n h = Inr ()"
  shows "runs (interrupt_active svc) s [] (Inr ()) (world.more (s\<lparr>active := interrupted_active (active s)\<rparr>))"
  unfolding interrupt_active_def
proof (rule runs_moment, rule runs_state, goal_cases)
  case 1
  show ?case
  proof (cases "active s")
    case None
    have "runs (returnE ()) (s\<lparr>draws := Suc (draws s)\<rparr>) [] (Inr ()) (world.more (s\<lparr>active := interrupted_active None\<rparr>))"
      by (rule runs_return_eq) (use None more_same_active [of s] in \<open>simp add: interrupted_active_def\<close>)
    with None show ?thesis by simp
  next
    case (Some a)
    let ?t = "s\<lparr>draws := Suc (draws s), active := interrupted_active (active s)\<rparr>"
    have req: "request (ks_call_handler (svc_shared svc) (draws s)) (act_interrupt a) =
        (Inr (\<not> requested (act_interrupt a)), (act_interrupt a)\<lparr>requested := True\<rparr>,
         (case handler (act_interrupt a) of None \<Rightarrow> [] | Some h \<Rightarrow> [h]))"
      using assms by (simp add: request_def Let_def split: option.splits)
    have "runs (bindE (eachE (\<lambda>h. effectE (HandlerCalled h)) hs) (\<lambda>_. bindE (liftE (Inr b)) (\<lambda>_. returnE ()))) u [] (Inr ())
        (world.more u)" for u :: shell and hs and b :: bool
      by (rule runs_bind_emits_last [OF emits_called], rule runs_bind_lift) (simp add: runs_return_eq)
    note rest = this [of _ _ ?t]
    have act: "interrupted_active (active s) = Some (a\<lparr>act_interrupt := (act_interrupt a)\<lparr>requested := True\<rparr>\<rparr>)"
      using Some by (simp add: interrupted_active_def)
    have "runs (bindE (modifyE (\<lambda>s. s\<lparr>active := Some (a\<lparr>act_interrupt := (act_interrupt a)\<lparr>requested := True\<rparr>\<rparr>)\<rparr>)) (\<lambda>_.
        bindE (eachE (\<lambda>h. effectE (HandlerCalled h)) hs) (\<lambda>_. bindE (liftE (Inr b)) (\<lambda>_. returnE ()))))
      (s\<lparr>draws := Suc (draws s)\<rparr>) [] (Inr ()) (world.more ?t)" for hs and b :: bool
      by (rule runs_modify_bind) (use rest act in simp_all)
    with Some req show ?thesis by (simp add: more_draws_active)
  qed
qed

lemma held_runs:
  assumes "encodes (svc_shared svc)"
  shows "\<exists>es. settled es = held_tickets (held s) \<and>
    runs (case held s of Some h \<Rightarrow> bindE (end_hold svc h st) (\<lambda>_. returnE ()) | None \<Rightarrow> returnE ()) s es (Inr ())
      (world.more (s\<lparr>held := None\<rparr>))"
proof (cases "held s")
  case None
  then have "world.more (s\<lparr>held := None\<rparr>) = world.more s" by (cases s) simp
  with None show ?thesis by (intro exI [of _ "[]"]) (simp add: held_tickets_def runs_return)
next
  case (Some h)
  let ?ib = "item_inbound (held_item h)"
  let ?es = "hold_error_events (message ?ib) st @
     [Rep (reply ?ib) (notice ''execute_reply'' (hold_reply (execution_count s) st) (message ?ib)), idle (message ?ib)]"
  have "runs (bindE (end_hold svc h st) (\<lambda>_. returnE ())) s (?es @ []) (Inr ()) (world.more (s\<lparr>held := None\<rparr>))"
    by (rule runs_bind [OF end_hold_runs [OF assms refl]]) (rule runs_return_eq)
  with Some show ?thesis by (intro exI [of _ ?es]) (simp add: held_tickets_def)
qed

section \<open>Properties\<close>



text \<open>A shell with an execution running, one held and two requests queued.\<close>

definition demo_execute :: "nat \<Rightarrow> inbound" where
  "demo_execute sink = demo_request ''execute_request'' (JObj [(''code'', JStr ''1'')]) [] sink"

definition demo_busy :: "execution_done task \<Rightarrow> shell" where
  "demo_busy t = (spawn_shell demo_world)\<lparr>incoming := [demo_execute 1],
     queue := [item_of 0 (demo_execute 2), item_of 1 (demo_request ''history_request'' JNull [] 3)],
     next_order := 2,
     held := Some \<lparr>held_item = item_of 2 (demo_execute 4), deadline = 7\<rparr>,
     active := Some \<lparr>act_inbound = demo_execute 5, act_request = to_execute_request JNull, act_count = 1,
       act_interrupt = default_interrupt, act_task = t\<rparr>\<rparr>"

lemma demo_busy_encodes: "encodes (svc_shared demo_shell_services)"
  by (simp add: demo_shell_services_def demo_encodes)


text \<open>
  Stop on error. When an execution ended, the shell forgets it; if it failed, its
  request asked to stop on errors and no interrupt is in progress, every execute request
  queued or in the channel is answered as aborted, highest priority and earliest arrival
  first, and only the other requests stay queued. Otherwise nothing is sent and the queue
  is left alone.
\<close>

theorem failure_aborts_pending:
  assumes "encodes (svc_shared svc)" and "active s = Some a" and "act_task a = Finished (Inr d)"
    and "take_done svc s = (r, s')"
  shows "r = Inr () \<and> active s' = None \<and>
    (if failed d \<and> stop_on_error d \<and> \<not> interrupting s
     then (\<exists>xs. observed s' = observed s @ concat (map (abort_events (execution_count s)) xs) \<and>
        mset xs = filter_mset is_execute (mset (queue (receive_all s))) \<and>
        sorted_wrt (\<lambda>x y. item_le y x) xs) \<and>
        mset (queue s') = filter_mset (\<lambda>i. \<not> is_execute i) (mset (queue (receive_all s)))
     else observed s' = observed s \<and> queue s' = queue s \<and> incoming s' = incoming s)"
proof -
  let ?t = "s\<lparr>active := None\<rparr>"
  have q: "queue (receive_all ?t) = queue (receive_all s)" by (simp add: receive_all_eq)
  from assms(2-4) have run: "whenE (failed d \<and> stop_on_error d \<and> \<not> interrupting s) (abort_pending svc) ?t = (r, s')"
    by (simp add: take_done_def execution_done_def wait_execution_def bindE_def liftE_def stateE_def modifyE_def)
  show ?thesis
  proof (cases "failed d \<and> stop_on_error d \<and> \<not> interrupting s")
    case True
    with run have "abort_pending svc ?t = (r, s')" by (simp add: whenE_def)
    note abort = abort_pending_effect [OF assms(1) this, unfolded q]
    have "active s' = None" using more_fields(6) [OF abort(2)] by simp
    with True abort(1,3,4) show ?thesis by simp
  next
    case False
    with run show ?thesis by (auto simp: whenE_def returnE_def)
  qed
qed

theorem failure_aborts_pending_witness:
  "\<exists>r s'. take_done demo_shell_services (demo_busy (Finished (Inr \<lparr>failed = True, stop_on_error = True\<rparr>))) = (r, s') \<and>
    r = Inr () \<and> active s' = None \<and>
    mset (queue s') = {#item_of 1 (demo_request ''history_request'' JNull [] 3)#}"
proof -
  let ?s = "demo_busy (Finished (Inr \<lparr>failed = True, stop_on_error = True\<rparr>))"
  obtain r s' where run: "take_done demo_shell_services ?s = (r, s')" by fastforce
  have "filter_mset (\<lambda>i. \<not> is_execute i) (mset (queue (receive_all ?s))) =
      {#item_of 1 (demo_request ''history_request'' JNull [] 3)#}"
    by (simp add: receive_all_eq demo_busy_def demo_execute_def is_execute_def spawn_shell_def)
  moreover have "active ?s = Some (the (active ?s))" "interrupting ?s = False"
    "act_task (the (active ?s)) = Finished (Inr \<lparr>failed = True, stop_on_error = True\<rparr>)"
    by (simp_all add: demo_busy_def spawn_shell_def)
  ultimately show ?thesis
    using failure_aborts_pending [OF demo_busy_encodes _ _ run, of "the (active ?s)"] run by simp
qed


text \<open>
  C17. A request that is not an execution is answered once. Handling any other message on a
  shell sends exactly one reply, of the request's reply type and to its sender, if its type
  ends in \<open>_request\<close>, and none otherwise, also when the language fails; and the shell
  only ends over it with an error of kind \<open>Closed\<close>.
\<close>

theorem other_requests_answered:
  assumes "encodes (svc_shared svc)" and "\<not> is_execute item" and "ib = item_inbound item"
  shows "\<exists>es r. runs (handle_item svc item) s es r (world.more s) \<and>
    (if ends_with (msg_type (message ib)) ''_request'' then single_reply ib es else replies es = []) \<and>
    (case r of Inl e \<Rightarrow> kind e = Closed | Inr _ \<Rightarrow> True)"
proof -
  let ?n = "execution_count s"
  have "msg_type (message ib) \<noteq> ''execute_request''" using assms(2,3) by (simp add: is_execute_def)
  from handle_shell_answers [OF assms(1) this, of ?n s] obtain es r where
    run: "runs (handle_shell svc ib ?n) s es r (world.more s)" and ans: "answers ib es r" by blast
  have item: "handle_item svc item = handle_other svc item" using assms(2) by (simp add: handle_item_def)
  show ?thesis
  proof (cases r)
    case (Inr outcome)
    have "runs (handle_item svc item) s (es @ []) (Inr (outcome = Shutdown)) (world.more s)"
      unfolding item handle_other_def Let_def assms(3) [symmetric]
      by (rule runs_state, rule runs_bind [OF runs_try [OF run]]) (simp add: Inr runs_return_eq)
    with ans Inr show ?thesis by (intro exI [of _ es] exI [of _ "Inr (outcome = Shutdown)"]) (simp add: answers_def)
  next
    case (Inl e)
    let ?fs = "(if ends_with (msg_type (message ib)) ''_request''
      then [Rep (reply ib) (notice (reply_type (msg_type (message ib))) (failure_content (message ib) ?n e) (message ib))]
      else []) @ [idle (message ib)]"
    have fail: "emits (report_failure svc (message ib) (reply ib) e ?n) ?fs ()"
      using emits_report_failure [OF assms(1), of "message ib" "reply ib" e ?n] \<open>msg_type _ \<noteq> _\<close> by simp
    have "runs (handle_item svc item) s (es @ ?fs) (if kind e = Closed then Inl e else Inr False) (world.more s)"
      unfolding item handle_other_def Let_def assms(3) [symmetric]
    proof (rule runs_state, rule runs_bind [OF runs_try [OF run]], unfold Inl sum.case)
      fix w assume "world.more w = world.more s"
      then show "runs (bindE (report_failure svc (message ib) (reply ib) e ?n)
          (\<lambda>_. if kind e = Closed then liftE (Inl e) else returnE False)) w ?fs
          (if kind e = Closed then Inl e else Inr False) (world.more s)"
        by (intro runs_bind_emits_last [OF fail]) (simp add: runs_lift_eq runs_return_eq)
    qed
    moreover have "replies es = []" using ans Inl by (simp add: answers_def)
    ultimately show ?thesis by (intro exI conjI) (auto simp: single_reply_def)
  qed
qed

theorem other_requests_answered_witness:
  "\<exists>es r. runs (handle_item demo_shell_services (item_of 1 (demo_request ''history_request'' JNull [] 3)))
      (demo_busy Pending) es r (world.more (demo_busy Pending)) \<and>
    single_reply (demo_request ''history_request'' JNull [] 3) es"
proof -
  have "ends_with ''history_request'' ''_request''" by code_simp
  with other_requests_answered [OF demo_busy_encodes _ refl,
      of "item_of 1 (demo_request ''history_request'' JNull [] 3)" "demo_busy Pending"]
  show ?thesis by (simp add: is_execute_def) blast
qed

text \<open>
  C19. A hold can displace a hold. A shell that holds one request and takes a second one
  that asks to be held, of a higher priority, holds the second instead: the first is
  answered neither then nor later, since it is no longer part of the state.
\<close>

theorem replaced_hold_lost:
  assumes "encodes (svc_shared svc)" and "held s = Some h" and "is_execute item"
    and "missing_fields (message (item_inbound item)) = []" and "wants_hold (item_inbound item)"
    and "\<not> interrupting s" and "handle_item svc item s = (r, s')"
  shows "(\<exists>d. held s' = Some \<lparr>held_item = item, deadline = d\<rparr>) \<and>
    settled (observed s') = settled (observed s) \<and>
    open_tickets s' + held_tickets (held s) = open_tickets s + tickets [item_inbound item]"
proof -
  let ?ks = "svc_shared svc" and ?req = "message (item_inbound item)" and ?n = "execution_count s"
  obtain s1 where s1: "begin_hold ?n ?ks item s = (Inr (), s1)" "world.more s1 = world.more s"
    "observed s1 = observed s @ busy ?req # input_events ?req (bool_field (content ?req) ''silent'' False)
      (str_field (content ?req) ''code'' '''') ?n"
    using emits_obtain [OF emits_begin_hold [OF assms(1) refl, of ?n item]] by blast
  have "s' = s1\<lparr>held := Some \<lparr>held_item = item, deadline = clock s1 + hold_timeout (ks_config ?ks)\<rparr>\<rparr>"
    using assms(3-7) s1(1)
    by (simp add: handle_item_def handle_execute_def bindE_def stateE_def modifyE_def returnE_def Let_def)
  moreover have "settled (observed s1) = settled (observed s)" by (simp add: s1(3) input_events_def)
  ultimately show ?thesis
    using more_fields [OF s1(2)] by (simp add: open_tickets_def held_tickets_def assms(2))
qed

definition demo_hold :: "nat \<Rightarrow> inbound" where
  "demo_hold sink = demo_request ''execute_request'' (JObj [(''code'', JStr ''1'')])
     [(''hold'', JBool True), (''priority'', JNum (Float 9))] sink"

theorem replaced_hold_lost_witness:
  "let s = (demo_busy Pending)\<lparr>active := None, queue := [item_of 3 (demo_hold 6)]\<rparr> in
   pop_runnable (queue s) (active s \<noteq> None) (held s) = (Some (item_of 3 (demo_hold 6)), []) \<and>
   (\<exists>r s'. handle_item demo_shell_services (item_of 3 (demo_hold 6)) s = (r, s') \<and>
      settled (observed s') = {#} \<and>
      open_tickets s' + held_tickets (held s) = open_tickets s + tickets [demo_hold 6])"
proof -
  let ?s = "(demo_busy Pending)\<lparr>active := None, queue := [item_of 3 (demo_hold 6)]\<rparr>"
  have pop: "pop_runnable (queue ?s) (active ?s \<noteq> None) (held ?s) = (Some (item_of 3 (demo_hold 6)), [])"
    by code_simp
  obtain r s' where run: "handle_item demo_shell_services (item_of 3 (demo_hold 6)) ?s = (r, s')" by fastforce
  have held: "held ?s = Some (the (held ?s))" and "settled (observed ?s) = {#}"
    by (simp_all add: demo_busy_def spawn_shell_def observed_def)
  moreover have "is_execute (item_of 3 (demo_hold 6))" "missing_fields (message (item_inbound (item_of 3 (demo_hold 6)))) = []"
    "wants_hold (item_inbound (item_of 3 (demo_hold 6)))" "\<not> interrupting ?s"
    by code_simp+
  ultimately have "settled (observed s') = {#} \<and>
      open_tickets s' + held_tickets (held ?s) = open_tickets ?s + tickets [item_inbound (item_of 3 (demo_hold 6))]"
    using replaced_hold_lost [OF demo_busy_encodes held _ _ _ _ run] by metis
  with pop run show ?thesis unfolding Let_def item_of_simps by blast
qed


end
