(* ===== verification/Kernel.thy ===== *)
theory Kernel
  imports Scheduler
begin

text \<open>
  The kernel's main loop (\<open>run_kernel_with_interrupter\<close> in \<open>src/src/engine.rs\<close>):
  its shells and routes, the routing of shell messages, the commands of executions that
  open and close subshells, the control requests, and the branches of the loop.

  A shell is seen here through its handle: what was sent to its two channels and how its
  task ended. A send succeeds while the task runs and fails once it has ended.
\<close>

section \<open>State\<close>

record shell_handle =
  h_incoming :: "inbound list"
  h_controls :: "shell_control list"
  h_task :: "unit task"

definition spawned :: shell_handle where
  "spawned = \<lparr>h_incoming = [], h_controls = [], h_task = Pending\<rparr>"

text \<open>What \<open>stop_in_background\<close> does once the shell has stopped.\<close>

datatype retirement = ReplyDeleted message nat | CompleteClose nat

record kernel = world +
  shells :: "(string, shell_handle) hash_map"
  route_overrides :: "(string, string) hash_map"
  shell_channel :: "inbound list"
  control_channel :: "inbound list"
  commands :: "session_command list"
  failures :: "error list"
  retiring :: "(shell_handle \<times> retirement) list"

text \<open>
  \<open>ke_released n i m\<close> is what the shell \<open>i\<close> answers, at moment \<open>n\<close>, to the
  release of the request \<open>m\<close>, or \<open>None\<close> when it drops the question.
\<close>

record kernel_env =
  ke_services :: kernel_services
  ke_language :: language_family
  ke_released :: "nat \<Rightarrow> string \<Rightarrow> string \<Rightarrow> bool option"

section \<open>Routing\<close>

definition subshell_id :: "message \<Rightarrow> string" where
  "subshell_id m = field_or as_str (map_of (header m) ''subshell_id'') ''''"

definition client_session :: "message \<Rightarrow> string" where
  "client_session m = field_or as_str (map_of (header m) ''session'') ''''"

definition reply_subshell_error :: "kernel_services \<Rightarrow> inbound \<Rightarrow> string \<Rightarrow> string \<Rightarrow>
    ('z world_scheme, unit) eng" where
  "reply_subshell_error ks ib en ev =
     whenE (ends_with (msg_type (message ib)) ''_request'')
       (reply_error ks (message ib) (reply ib) (error_content (message ib) 0 en ev))"

definition reply_subshell_not_found :: "kernel_services \<Rightarrow> inbound \<Rightarrow> ('z world_scheme, unit) eng" where
  "reply_subshell_not_found ks ib =
     reply_subshell_error ks ib ''SubshellNotFound''
       (''Unknown subshell_id '' @ debug_str (subshell_id (message ib)))"

definition create_subshell :: "kernel_env \<Rightarrow> string option \<Rightarrow> (kernel, string) eng" where
  "create_subshell env requested_id =
     bindE momentE (\<lambda>n.
     let i = (case requested_id of Some i \<Rightarrow> i | None \<Rightarrow> uuid_v4 (ks_crates (ke_services env)) n) in
     if i = '''' then liftE (Inl (error_new InvalidInput ''subshell_id cannot be empty''))
     else if \<not> supports_children (ke_language env)
     then liftE (Inl (error_new Unavailable ''subshells are not supported''))
     else bindE stateE (\<lambda>s.
       if hm_contains_key (shells s) i then returnE i
       else bindE momentE (\<lambda>m.
            bindE (liftE (create_child (ke_language env) m)) (\<lambda>_.
            bindE (modifyE (\<lambda>s. s\<lparr>shells := hm_insert i spawned (shells s)\<rparr>)) (\<lambda>_.
            returnE i)))))"

definition route_target :: "(string, string) hash_map \<Rightarrow> message \<Rightarrow> string" where
  "route_target overrides m =
     (if subshell_id m \<noteq> '''' then subshell_id m
      else if msg_type m = ''execute_request''
      then (case hm_get overrides (client_session m) of Some i \<Rightarrow> i | None \<Rightarrow> '''')
      else '''')"

definition accept :: "inbound \<Rightarrow> shell_handle \<Rightarrow> shell_handle" where
  "accept ib h = h\<lparr>h_incoming := h_incoming h @ [ib]\<rparr>"

text \<open>\<open>target.incoming.send(inbound)\<close>, answered with an error where the shell is gone.\<close>

definition send_to_shell :: "kernel_env \<Rightarrow> string \<Rightarrow> inbound \<Rightarrow> (kernel, unit) eng" where
  "send_to_shell env i ib =
     bindE stateE (\<lambda>s.
     case hm_get (shells s) i of
       Some h \<Rightarrow>
         if h_task h = Pending then modifyE (\<lambda>s. s\<lparr>shells := hm_insert i (accept ib h) (shells s)\<rparr>)
         else reply_subshell_not_found (ke_services env) ib
     | None \<Rightarrow> reply_subshell_not_found (ke_services env) ib)"

definition route_shell :: "kernel_env \<Rightarrow> inbound \<Rightarrow> (kernel, unit) eng" where
  "route_shell env ib =
     bindE stateE (\<lambda>s.
     let i = route_target (route_overrides s) (message ib) in
     bindE (if subshell_id (message ib) \<noteq> '''' \<and> \<not> hm_contains_key (shells s) i
            then tryE (create_subshell env (Some i)) else returnE (Inr i)) (\<lambda>created.
     case created of
       Inl e \<Rightarrow> reply_subshell_error (ke_services env) ib ''SubshellCreationError'' (show_error e)
     | Inr _ \<Rightarrow> send_to_shell env i ib))"

definition route_pending_shells :: "kernel_env \<Rightarrow> (kernel, unit) eng" where
  "route_pending_shells env =
     bindE stateE (\<lambda>s.
     bindE (modifyE (\<lambda>s. s\<lparr>shell_channel := []\<rparr>)) (\<lambda>_.
     eachE (route_shell env) (shell_channel s)))"

section \<open>Controlling shells\<close>

definition command_shell :: "shell_control \<Rightarrow> shell_handle \<Rightarrow> shell_handle" where
  "command_shell x h = (if h_task h = Pending then h\<lparr>h_controls := h_controls h @ [x]\<rparr> else h)"

text \<open>\<open>shell.controls.send(x).await?\<close>\<close>

definition send_control :: "shell_control \<Rightarrow> string \<Rightarrow> (kernel, unit) eng" where
  "send_control x i =
     bindE stateE (\<lambda>s.
     case hm_get (shells s) i of
       Some h \<Rightarrow>
         if h_task h = Pending then modifyE (\<lambda>s. s\<lparr>shells := hm_insert i (command_shell x h) (shells s)\<rparr>)
         else liftE (Inl from_send)
     | None \<Rightarrow> returnE ())"

definition interrupt_shells :: "(kernel, unit) eng" where
  "interrupt_shells = bindE stateE (\<lambda>s. eachE (send_control Interrupt) (map fst (shells s)))"

text \<open>The controls of \<open>stop_shell\<close>, whose send errors it ignores.\<close>

definition stop_shell :: "bool \<Rightarrow> shell_handle \<Rightarrow> shell_handle" where
  "stop_shell interrupt h =
     command_shell Stop (if interrupt then command_shell Interrupt h else h)"

definition stop_in_background :: "shell_handle \<Rightarrow> bool \<Rightarrow> retirement \<Rightarrow> (kernel, unit) eng" where
  "stop_in_background h interrupt d =
     modifyE (\<lambda>s. s\<lparr>retiring := retiring s @ [(stop_shell interrupt h, d)]\<rparr>)"

definition deleted_reply :: json where
  "deleted_reply = JObj [(''status'', JStr ''ok'')]"

fun retire :: "kernel_services \<Rightarrow> retirement \<Rightarrow> (kernel, unit) eng" where
  "retire ks (ReplyDeleted m sink) = send_reply ks sink m ''delete_subshell_reply'' deleted_reply"
| "retire ks (CompleteClose n) = effectE (RouteClosed n (Inr ()))"

text \<open>The end of the background task: \<open>stop_shell(..).await?; done.await\<close>, or the failure.\<close>

definition finish_retirement :: "kernel_services \<Rightarrow> unit result \<Rightarrow> retirement \<Rightarrow> (kernel, unit) eng" where
  "finish_retirement ks r d =
     bindE (tryE (bindE (liftE r) (\<lambda>_. retire ks d))) (\<lambda>ended.
     case ended of
       Inl e \<Rightarrow> modifyE (\<lambda>s. s\<lparr>failures := failures s @ [e]\<rparr>)
     | Inr _ \<Rightarrow> returnE ())"

section \<open>Commands of executions\<close>

fun handle_command :: "kernel_env \<Rightarrow> session_command \<Rightarrow> (kernel, unit) eng" where
  "handle_command env (Open client requested_id sender) =
     bindE stateE (\<lambda>s.
     bindE (if hm_contains_key (route_overrides s) client
            then returnE (Inl (error_new InvalidInput ''this client session already has a subshell route''))
            else tryE (bindE (create_subshell env requested_id) (\<lambda>i.
                 bindE (modifyE (\<lambda>s. s\<lparr>route_overrides := hm_insert client i (route_overrides s)\<rparr>)) (\<lambda>_.
                 returnE i)))) (\<lambda>r.
     effectE (Opened sender r)))"
| "handle_command env (CloseRoute client i delete sender) =
     bindE stateE (\<lambda>s.
     if hm_get (route_overrides s) client \<noteq> Some i
     then effectE (RouteClosed sender (Inl (error_new InvalidInput ''subshell route is not active'')))
     else bindE (modifyE (\<lambda>s. s\<lparr>route_overrides := hm_remove client (route_overrides s)\<rparr>)) (\<lambda>_.
          case (if delete then hm_get (shells s) i else None) of
            Some h \<Rightarrow>
              bindE (modifyE (\<lambda>s. s\<lparr>shells := hm_remove i (shells s)\<rparr>)) (\<lambda>_.
              stop_in_background h False (CompleteClose sender))
          | None \<Rightarrow> effectE (RouteClosed sender (Inr ()))))"

section \<open>Control requests\<close>

definition restart_content :: "message \<Rightarrow> json" where
  "restart_content req = JObj [(''status'', JStr ''ok''), (''restart'', JBool (bool_field (content req) ''restart'' False))]"

definition subshell_error :: "string \<Rightarrow> string \<Rightarrow> json" where
  "subshell_error en ev = JObj [(''status'', JStr ''error''), (''ename'', JStr en), (''evalue'', JStr ev),
     (''traceback'', JArr [])]"

definition create_request :: "kernel_env \<Rightarrow> inbound \<Rightarrow> (kernel, unit) eng" where
  "create_request env ib =
     (let req = message ib; answer = send_reply (ke_services env) (reply ib) req ''create_subshell_reply'' in
      if \<not> supports_children (ke_language env)
      then answer (subshell_error ''SubshellsNotSupported'' ''kernel subshells are not supported'')
      else bindE (tryE (create_subshell env
                    (case json_get (content req) ''subshell_id'' of Some v \<Rightarrow> as_str v | None \<Rightarrow> None))) (\<lambda>r.
           answer (case r of
              Inr i \<Rightarrow> JObj [(''status'', JStr ''ok''), (''subshell_id'', JStr i)]
            | Inl e \<Rightarrow> subshell_error ''SubshellCreationError'' (show_error e))))"

definition list_request :: "kernel_env \<Rightarrow> inbound \<Rightarrow> (kernel, unit) eng" where
  "list_request env ib =
     bindE stateE (\<lambda>s.
     send_reply (ke_services env) (reply ib) (message ib) ''list_subshell_reply''
       (JObj [(''status'', JStr ''ok''),
              (''subshell_id'', JArr (map JStr (filter (\<lambda>i. i \<noteq> '''') (map fst (shells s)))))]))"

definition delete_request :: "kernel_env \<Rightarrow> inbound \<Rightarrow> (kernel, unit) eng" where
  "delete_request env ib =
     (let req = message ib; i = str_field (content req) ''subshell_id'' '''' in
      bindE stateE (\<lambda>s.
      case hm_get (shells s) i of
        Some h \<Rightarrow>
          bindE (modifyE (\<lambda>s. s\<lparr>shells := hm_remove i (shells s),
                   route_overrides := hm_retain (\<lambda>_ routed. routed \<noteq> i) (route_overrides s)\<rparr>)) (\<lambda>_.
          stop_in_background h True (ReplyDeleted req (reply ib)))
      | None \<Rightarrow>
          send_reply (ke_services env) (reply ib) req ''delete_subshell_reply''
            (subshell_error ''SubshellNotFound'' (''Unknown subshell_id '' @ debug_str i))))"

text \<open>The question put to one shell in turn: \<open>found |= result.await?\<close>.\<close>

definition release_in :: "kernel_env \<Rightarrow> string \<Rightarrow> string \<Rightarrow> string \<Rightarrow> (kernel, bool) eng" where
  "release_in env mid st i =
     bindE momentE (\<lambda>n.
     bindE (send_control (Release mid st n) i) (\<lambda>_.
     case ke_released env n i mid of
       Some b \<Rightarrow> returnE b
     | None \<Rightarrow> liftE (Inl (from_recv ''channel closed''))))"

fun release_all :: "kernel_env \<Rightarrow> string \<Rightarrow> string \<Rightarrow> string list \<Rightarrow> bool \<Rightarrow> (kernel, bool) eng" where
  "release_all env mid st [] found = returnE found"
| "release_all env mid st (i # is) found =
     bindE (release_in env mid st i) (\<lambda>b. release_all env mid st is (found \<or> b))"

definition release_request :: "kernel_env \<Rightarrow> inbound \<Rightarrow> (kernel, unit) eng" where
  "release_request env ib =
     (let req = message ib in
      bindE (route_pending_shells env) (\<lambda>_.
      bindE stateE (\<lambda>s.
      bindE (release_all env (str_field (content req) ''msg_id'' '''') (str_field (content req) ''status'' ''ok'')
               (map fst (shells s)) False) (\<lambda>found.
      send_reply (ke_services env) (reply ib) req ''release_reply''
        (JObj [(''status'', JStr ''ok''), (''found'', JBool found)])))))"

definition debug_failed :: "json \<Rightarrow> error \<Rightarrow> json" where
  "debug_failed body e = JObj [(''response'', JObj [(''type'', JStr ''response''),
     (''request_seq'', json_index body ''seq''), (''command'', json_index body ''command''),
     (''success'', JBool False), (''message'', JStr (show_error e))])]"

definition debug_request :: "kernel_env \<Rightarrow> inbound \<Rightarrow> (kernel, unit) eng" where
  "debug_request env ib =
     (let req = message ib; ks = ke_services env in
      bindE (status ks req ''busy'') (\<lambda>_.
      bindE momentE (\<lambda>n.
      let result = (case lang_debug (parent_session (ke_language env)) n (content req) of
            Inr v \<Rightarrow> v | Inl e \<Rightarrow> debug_failed (content req) e) in
      bindE (send_reply ks (reply ib) req ''debug_reply''
               (case json_get result ''response'' of Some v \<Rightarrow> v | None \<Rightarrow> JObj [])) (\<lambda>_.
      bindE (eachE (send_iopub ks req ''debug_event'')
               (case Option.bind (json_get result ''events'') as_array of Some evs \<Rightarrow> evs | None \<Rightarrow> [])) (\<lambda>_.
      status ks req ''idle'')))))"

text \<open>The result says whether the loop returns.\<close>

definition handle_control :: "kernel_env \<Rightarrow> inbound \<Rightarrow> (kernel, bool) eng" where
  "handle_control env ib =
     (let req = message ib; t = msg_type req; ks = ke_services env;
          continue = (\<lambda>m. bindE m (\<lambda>_. returnE False)) in
      if t = ''shutdown_request''
      then bindE (send_reply ks (reply ib) req ''shutdown_reply'' (restart_content req)) (\<lambda>_. returnE True)
      else if t = ''interrupt_request''
      then continue (bindE (route_pending_shells env) (\<lambda>_.
                     bindE interrupt_shells (\<lambda>_.
                     send_reply ks (reply ib) req ''interrupt_reply'' (JObj [(''status'', JStr ''ok'')]))))
      else if t = ''create_subshell_request'' then continue (create_request env ib)
      else if t = ''list_subshell_request'' then continue (list_request env ib)
      else if t = ''delete_subshell_request'' then continue (delete_request env ib)
      else if t = ''release_request'' then continue (release_request env ib)
      else if t = ''debug_request'' then continue (debug_request env ib)
      else if ends_with t ''_request''
      then continue (send_reply ks (reply ib) req (reply_type t) (JObj [(''status'', JStr ''ok'')]))
      else returnE False)"

section \<open>The loop\<close>

text \<open>The branches of its \<open>tokio::select!\<close>.\<close>

datatype branch =
  ServiceEnded "unit task"
| FailureReceived
| ShellEnded string
| Terminated
| Notified
| ShellMessage
| CommandReceived
| ControlReceived

definition shell_ended :: "string \<Rightarrow> (kernel, bool) eng" where
  "shell_ended i =
     bindE stateE (\<lambda>s.
     case Option.bind (hm_get (shells s) i) (\<lambda>h. task_result (h_task h)) of
       None \<Rightarrow> returnE False
     | Some r \<Rightarrow>
         bindE (modifyE (\<lambda>s. s\<lparr>shells := hm_remove i (shells s)\<rparr>)) (\<lambda>_.
         bindE (liftE r) (\<lambda>_.
         if i = '''' then returnE True
         else bindE (modifyE (\<lambda>s. s\<lparr>route_overrides := hm_retain (\<lambda>_ routed. routed \<noteq> i) (route_overrides s)\<rparr>)) (\<lambda>_.
              returnE False))))"

fun take_branch :: "kernel_env \<Rightarrow> branch \<Rightarrow> (kernel, bool) eng" where
  "take_branch env (ServiceEnded t) =
     (case task_result t of
        Some (Inl e) \<Rightarrow> liftE (Inl e)
      | _ \<Rightarrow> liftE (Inl (closed ''kernel service'')))"
| "take_branch env FailureReceived =
     bindE stateE (\<lambda>s.
     liftE (Inl (case failures s of e # _ \<Rightarrow> e | [] \<Rightarrow> closed ''kernel output'')))"
| "take_branch env (ShellEnded i) = shell_ended i"
| "take_branch env Terminated = returnE True"
| "take_branch env Notified = bindE interrupt_shells (\<lambda>_. returnE False)"
| "take_branch env ShellMessage =
     bindE stateE (\<lambda>s.
     case shell_channel s of
       [] \<Rightarrow> liftE (Inl (closed ''shell service''))
     | ib # rest \<Rightarrow>
         bindE (modifyE (\<lambda>s. s\<lparr>shell_channel := rest\<rparr>)) (\<lambda>_.
         bindE (route_shell env ib) (\<lambda>_. returnE False)))"
| "take_branch env CommandReceived =
     bindE stateE (\<lambda>s.
     case commands s of
       [] \<Rightarrow> liftE (Inl (closed ''subshell command service''))
     | x # rest \<Rightarrow>
         bindE (modifyE (\<lambda>s. s\<lparr>commands := rest\<rparr>)) (\<lambda>_.
         bindE (handle_command env x) (\<lambda>_. returnE False)))"
| "take_branch env ControlReceived =
     bindE stateE (\<lambda>s.
     case control_channel s of
       [] \<Rightarrow> liftE (Inl (closed ''control service''))
     | ib # rest \<Rightarrow>
         bindE (modifyE (\<lambda>s. s\<lparr>control_channel := rest\<rparr>)) (\<lambda>_. handle_control env ib))"

text \<open>
  The sender of debug events that the language gets: the event is published with no parent,
  and a failure is reported to the loop.
\<close>

definition debug_sender :: "kernel_services \<Rightarrow> json \<Rightarrow> (kernel, unit) eng" where
  "debug_sender ks ev =
     bindE (tryE (bindE (new_message ks ''debug_event'' ev None) (publish ks))) (\<lambda>r.
     case r of
       Inl e \<Rightarrow> modifyE (\<lambda>s. s\<lparr>failures := failures s @ [e]\<rparr>)
     | Inr _ \<Rightarrow> returnE ())"

definition kernel_new :: "world \<Rightarrow> kernel" where
  "kernel_new w =
     \<lparr>draws = draws w, clock = clock w, pending_inputs = pending_inputs w, trace = [],
      shells = [('''', spawned)], route_overrides = [], shell_channel = [], control_channel = [],
      commands = [], failures = [], retiring = []\<rparr>"

text \<open>
  The loop among its environment: messages and commands arrive, shells end, the background
  tasks of stopped shells finish, the language sends debug events, and the output tasks of
  executions report their failures.
\<close>

inductive kernel_step :: "kernel_env \<Rightarrow> bool result option \<times> kernel \<Rightarrow> bool result option \<times> kernel \<Rightarrow> bool"
  for env :: kernel_env where
  branch: "take_branch env b s = (r, s') \<Longrightarrow>
    kernel_step env (None, s) (if r = Inr False then None else Some r, s')"
| shell_message: "kernel_step env (None, s) (None, s\<lparr>shell_channel := shell_channel s @ [ib]\<rparr>)"
| control_message: "kernel_step env (None, s) (None, s\<lparr>control_channel := control_channel s @ [ib]\<rparr>)"
| command: "kernel_step env (None, s) (None, s\<lparr>commands := commands s @ [x]\<rparr>)"
| shell_end: "hm_get (shells s) i = Some h \<Longrightarrow>
    kernel_step env (None, s) (None, s\<lparr>shells := hm_insert i (h\<lparr>h_task := t\<rparr>) (shells s)\<rparr>)"
| retire: "(h, d) \<in> set (retiring s) \<Longrightarrow> finish_retirement (ke_services env) r d s = (r', s') \<Longrightarrow>
    kernel_step env (x, s) (x, s'\<lparr>retiring := remove1 (h, d) (retiring s')\<rparr>)"
| debug_event: "debug_sender (ke_services env) ev s = (r, s') \<Longrightarrow> kernel_step env (x, s) (x, s')"
| failure: "kernel_step env (x, s) (x, s\<lparr>failures := failures s @ [e]\<rparr>)"

definition kernel_start :: "bool result option \<times> kernel \<Rightarrow> bool" where
  "kernel_start c \<longleftrightarrow> (\<exists>w. c = (None, kernel_new w))"

text \<open>
  The end of the kernel: every shell is stopped, and the first error is the result. The
  argument lists how the stopped shells ended.
\<close>

fun drain_shells :: "unit result \<Rightarrow> unit result list \<Rightarrow> unit result \<times> effect list" where
  "drain_shells result [] = (result, [])"
| "drain_shells result (Inr _ # rs) = drain_shells result rs"
| "drain_shells result (Inl e # rs) =
     (case result of
        Inr _ \<Rightarrow> drain_shells (Inl e) rs
      | Inl _ \<Rightarrow> (let (r, es) = drain_shells result rs
                  in (r, Stderr (''kernel shutdown failed: '' @ show_error e) # es)))"

end
