(* ===== verification/Routing.thy ===== *)
theory Routing
  imports Kernel
begin

text \<open>
  What the kernel does with the messages it routes: each is handed to one shell or
  answered, an interrupt comes after every message received before it, and the routes of
  client sessions.
\<close>

section \<open>Lemmas\<close>

lemma observed_kernel_update [simp]:
  "observed (s\<lparr>shells := a\<rparr>) = observed s" "observed (s\<lparr>route_overrides := b\<rparr>) = observed s"
  "observed (s\<lparr>shell_channel := c\<rparr>) = observed s" "observed (s\<lparr>control_channel := c\<rparr>) = observed s"
  "observed (s\<lparr>commands := d\<rparr>) = observed s" "observed (s\<lparr>failures := e\<rparr>) = observed s"
  "observed (s\<lparr>retiring := f\<rparr>) = observed s"
  for s :: kernel
  by (simp_all add: observed_def)

lemma kernel_more:
  fixes s t :: kernel
  assumes "world.more s = world.more t"
  shows "shells s = shells t" "route_overrides s = route_overrides t" "shell_channel s = shell_channel t"
    "control_channel s = control_channel t" "commands s = commands t" "failures s = failures t"
    "retiring s = retiring t"
  using assms by (cases s; cases t; simp)+

lemma kernel_more_shells: "world.more (s\<lparr>draws := n, shells := x\<rparr>) = world.more (s\<lparr>shells := x\<rparr>)" for s :: kernel
  by (cases s) simp

text \<open>The events of an error that answers a routed message.\<close>

definition refusal :: "inbound \<Rightarrow> string \<Rightarrow> string \<Rightarrow> event list" where
  "refusal ib en ev =
     (let req = message ib; body = error_content req 0 en ev in
      if \<not> ends_with (msg_type req) ''_request'' then []
      else if msg_type req = ''execute_request''
      then [busy req, Pub (notice ''error'' body req), Rep (reply ib) (notice ''execute_reply'' body req), idle req]
      else [Rep (reply ib) (notice (reply_type (msg_type req)) body req)])"

lemma emits_subshell_error:
  "encodes ks \<Longrightarrow> emits (reply_subshell_error ks ib en ev) (refusal ib en ev) ()"
  using emits_reply_error [of ks "message ib" "reply ib" "error_content (message ib) 0 en ev"]
  by (auto simp: reply_subshell_error_def refusal_def Let_def whenE_def emits_return)

lemma emits_not_found:
  "encodes ks \<Longrightarrow> emits (reply_subshell_not_found ks ib)
     (refusal ib ''SubshellNotFound'' (''Unknown subshell_id '' @ debug_str (subshell_id (message ib)))) ()"
  unfolding reply_subshell_not_found_def by (rule emits_subshell_error)

lemma refusal_answers:
  "if ends_with (msg_type (message ib)) ''_request'' then single_reply ib (refusal ib en ev) else refusal ib en ev = []"
  by (auto simp: refusal_def Let_def single_reply_def)

text \<open>Creating a subshell: it exists afterwards, and no other shell is touched.\<close>

lemma create_subshell_spec:
  assumes "create_subshell env wanted s = (r, s')"
  shows "observed s' = observed s"
    and "r = Inl e \<Longrightarrow> world.more s' = world.more s"
    and "r = Inr i \<Longrightarrow> i \<noteq> '''' \<and> (\<forall>j. wanted = Some j \<longrightarrow> i = j) \<and> supports_children (ke_language env) \<and>
      world.more s' = world.more (if hm_contains_key (shells s) i then s
        else s\<lparr>shells := hm_insert i spawned (shells s)\<rparr>)"
  using assms
  by (auto simp: create_subshell_def bindE_def momentE_def liftE_def returnE_def stateE_def modifyE_def Let_def
      kernel_more_shells split: if_splits sum.splits option.splits)

definition delivered :: "string \<Rightarrow> inbound \<Rightarrow> kernel \<Rightarrow> kernel \<Rightarrow> bool" where
  "delivered i ib s s' \<longleftrightarrow> (\<exists>h. hm_get (shells s') i = Some (accept ib h) \<and> h_task h = Pending \<and>
     (hm_get (shells s) i = Some h \<or> hm_get (shells s) i = None \<and> h = spawned) \<and>
     (\<forall>j. j \<noteq> i \<longrightarrow> hm_get (shells s') j = hm_get (shells s) j))"

lemma send_to_shell_spec:
  assumes "encodes (ke_services env)" and "send_to_shell env i ib s = (r, s')"
  shows "r = Inr () \<and> (\<exists>es. observed s' = observed s @ es \<and>
    (es = [] \<and> (\<exists>h. hm_get (shells s) i = Some h \<and> h_task h = Pending \<and>
        world.more s' = world.more (s\<lparr>shells := hm_insert i (accept ib h) (shells s)\<rparr>)) \<or>
     world.more s' = world.more s \<and> (\<forall>h. hm_get (shells s) i = Some h \<longrightarrow> h_task h \<noteq> Pending) \<and>
       es = refusal ib ''SubshellNotFound'' (''Unknown subshell_id '' @ debug_str (subshell_id (message ib)))))"
proof (cases "\<exists>h. hm_get (shells s) i = Some h \<and> h_task h = Pending")
  case True
  with assms(2) show ?thesis by (auto simp: send_to_shell_def bindE_def stateE_def modifyE_def)
next
  case False
  with assms(2) have "reply_subshell_not_found (ke_services env) ib s = (r, s')"
    by (auto simp: send_to_shell_def bindE_def stateE_def split: option.splits if_splits)
  with emits_obtain [OF emits_not_found [OF assms(1)], of ib s] False show ?thesis by fastforce
qed

lemma delivered_insert:
  "hm_get (shells s) i = Some h \<or> hm_get (shells s) i = None \<and> h = spawned \<Longrightarrow> h_task h = Pending \<Longrightarrow>
   shells s' = hm_insert i (accept ib h) m \<Longrightarrow> (\<And>j. j \<noteq> i \<Longrightarrow> hm_get m j = hm_get (shells s) j) \<Longrightarrow>
   delivered i ib s s'"
  by (auto simp: delivered_def hm_get_insert)

lemma route_shell_spec:
  assumes "encodes (ke_services env)" and "route_shell env ib s = (r, s')"
    and i: "i = route_target (route_overrides s) (message ib)"
  shows "r = Inr () \<and> route_overrides s' = route_overrides s \<and> shell_channel s' = shell_channel s \<and>
    retiring s' = retiring s \<and>
    (\<exists>es. observed s' = observed s @ es \<and>
      (es = [] \<and> delivered i ib s s' \<or> shells s' = shells s \<and> (\<exists>en ev. es = refusal ib en ev)))"
proof (cases "subshell_id (message ib) \<noteq> '''' \<and> \<not> hm_contains_key (shells s) i")
  case False
  have run: "send_to_shell env i ib s = (r, s')"
    using assms(2) False
    unfolding route_shell_def bindE_def [of stateE] stateE_def prod.case sum.case Let_def i [symmetric] if_not_P [OF False]
    by (simp add: bindE_def returnE_def)
  from send_to_shell_spec [OF assms(1) run] obtain es where r: "r = Inr ()" "observed s' = observed s @ es"
    and "es = [] \<and> (\<exists>h. hm_get (shells s) i = Some h \<and> h_task h = Pending \<and>
        world.more s' = world.more (s\<lparr>shells := hm_insert i (accept ib h) (shells s)\<rparr>)) \<or>
      world.more s' = world.more s \<and> (\<exists>en ev. es = refusal ib en ev)" by blast
  from this(3) show ?thesis
  proof (elim disjE conjE exE)
    fix h assume h: "es = []" "hm_get (shells s) i = Some h" "h_task h = Pending"
      "world.more s' = world.more (s\<lparr>shells := hm_insert i (accept ib h) (shells s)\<rparr>)"
    note m = kernel_more [OF h(4), simplified]
    have "delivered i ib s s'" using h(2,3) m(1) by (intro delivered_insert [of s i h]) auto
    with r h(1) m show ?thesis by auto
  next
    fix en ev assume "world.more s' = world.more s" "es = refusal ib en ev"
    with r kernel_more [of s' s] show ?thesis by auto
  qed
next
  case True
  note route = assms(2) [unfolded route_shell_def bindE_def [of stateE] stateE_def prod.case sum.case Let_def
      i [symmetric] if_P [OF True]]
  obtain q t where create: "create_subshell env (Some i) s = (q, t)" by fastforce
  note spec = create_subshell_spec [OF create]
  show ?thesis
  proof (cases q)
    case (Inl e)
    from route create Inl have "reply_subshell_error (ke_services env) ib ''SubshellCreationError'' (show_error e) t = (r, s')"
      by (simp add: bindE_def tryE_def)
    with emits_obtain [OF emits_subshell_error [OF assms(1)], of ib "''SubshellCreationError''" "show_error e" t]
    have "r = Inr ()" "observed s' = observed t @ refusal ib ''SubshellCreationError'' (show_error e)"
      "world.more s' = world.more t" by auto
    with spec(1) kernel_more [OF spec(2) [OF Inl]] kernel_more [of s' t] show ?thesis by auto
  next
    case (Inr j)
    with route create have run: "send_to_shell env i ib t = (r, s')" by (simp add: bindE_def tryE_def)
    have none: "hm_get (shells s) i = None" using True by (simp add: hm_contains_key_def)
    from spec(3) [OF Inr] True have "world.more t = world.more (s\<lparr>shells := hm_insert i spawned (shells s)\<rparr>)" by auto
    note t = kernel_more [OF this, simplified]
    have "hm_get (shells t) i = Some spawned" "h_task spawned = Pending"
      by (simp_all add: t hm_get_insert spawned_def)
    with send_to_shell_spec [OF assms(1) run] have "r = Inr ()" "observed s' = observed t"
      and m: "world.more s' = world.more (t\<lparr>shells := hm_insert i (accept ib spawned) (shells t)\<rparr>)" by auto
    moreover have "delivered i ib s s'"
      using none kernel_more(1) [OF m] t(1)
      by (intro delivered_insert [of s i spawned s' ib "shells t"]) (auto simp: spawned_def hm_get_insert)
    ultimately show ?thesis using spec(1) t kernel_more [OF m] by auto
  qed
qed

section \<open>Messages before an interrupt\<close>

text \<open>A shell's handle after further messages and controls.\<close>

definition grown :: "shell_handle \<Rightarrow> shell_handle \<Rightarrow> bool" where
  "grown h h' \<longleftrightarrow> h_task h' = h_task h \<and> (\<exists>xs. h_incoming h' = h_incoming h @ xs)"

definition shells_grow :: "kernel \<Rightarrow> kernel \<Rightarrow> bool" where
  "shells_grow s s' \<longleftrightarrow> (\<forall>i h. hm_get (shells s) i = Some h \<longrightarrow> (\<exists>h'. hm_get (shells s') i = Some h' \<and> grown h h')) \<and>
     (\<forall>i h. hm_get (shells s') i = Some h \<longrightarrow> hm_get (shells s) i = None \<longrightarrow> h_task h = Pending) \<and>
     (\<exists>es. observed s' = observed s @ es)"

text \<open>A message that a shell received, or that was answered.\<close>

definition handled :: "inbound \<Rightarrow> kernel \<Rightarrow> bool" where
  "handled ib s \<longleftrightarrow> (\<exists>i h. hm_get (shells s) i = Some h \<and> ib \<in> set (h_incoming h)) \<or>
     (\<exists>pre en ev post. observed s = pre @ refusal ib en ev @ post)"

lemma shells_grow_refl: "shells_grow s s"
  by (simp add: shells_grow_def grown_def)

lemma shells_grow_trans:
  assumes "shells_grow s t" and "shells_grow t u"
  shows "shells_grow s u"
proof -
  have "\<exists>h''. hm_get (shells u) i = Some h'' \<and> grown h h''" if "hm_get (shells s) i = Some h" for i h
    using assms that unfolding shells_grow_def grown_def by (metis append.assoc)
  moreover have "h_task h = Pending" if "hm_get (shells u) i = Some h" "hm_get (shells s) i = None" for i h
  proof (cases "hm_get (shells t) i")
    case None
    with that assms(2) show ?thesis by (auto simp: shells_grow_def)
  next
    case (Some h')
    with that assms(1) have "h_task h' = Pending" by (auto simp: shells_grow_def)
    with Some that(1) assms(2) show ?thesis by (fastforce simp: shells_grow_def grown_def)
  qed
  ultimately show ?thesis using assms by (fastforce simp: shells_grow_def)
qed

lemma handled_grow: "handled ib s \<Longrightarrow> shells_grow s s' \<Longrightarrow> handled ib s'"
  unfolding handled_def shells_grow_def grown_def
  by (elim disjE exE conjE) (fastforce, metis append.assoc)

lemma route_shell_handles:
  assumes "encodes (ke_services env)" and "route_shell env ib s = (r, s')"
  shows "r = Inr () \<and> handled ib s' \<and> shells_grow s s' \<and> shell_channel s' = shell_channel s"
proof -
  let ?i = "route_target (route_overrides s) (message ib)"
  from route_shell_spec [OF assms refl] obtain es where r: "r = Inr ()" "shell_channel s' = shell_channel s"
    "observed s' = observed s @ es" and
    es: "es = [] \<and> delivered ?i ib s s' \<or> shells s' = shells s \<and> (\<exists>en ev. es = refusal ib en ev)" by blast
  from es show ?thesis
  proof (elim disjE conjE exE)
    assume "delivered ?i ib s s'"
    then obtain h where h: "hm_get (shells s') ?i = Some (accept ib h)" "h_task h = Pending"
      "hm_get (shells s) ?i = Some h \<or> hm_get (shells s) ?i = None \<and> h = spawned"
      and other: "\<And>j. j \<noteq> ?i \<Longrightarrow> hm_get (shells s') j = hm_get (shells s) j" by (auto simp: delivered_def)
    have "handled ib s'"
      unfolding handled_def by (intro disjI1 exI conjI, rule h(1)) (simp add: accept_def)
    moreover have "\<exists>h'. hm_get (shells s') j = Some h' \<and> grown g h'" if "hm_get (shells s) j = Some g" for j g
      using h other [of j] that by (cases "j = ?i") (auto simp: grown_def accept_def)
    moreover have "h_task g = Pending" if "hm_get (shells s') j = Some g" "hm_get (shells s) j = None" for j g
      using h other [of j] that by (cases "j = ?i") (auto simp: accept_def)
    ultimately show ?thesis using r by (auto simp: shells_grow_def)
  next
    fix en ev assume "shells s' = shells s" "es = refusal ib en ev"
    moreover from this(2) r(3) have "handled ib s'"
      unfolding handled_def by (intro disjI2 exI [of _ "observed s"] exI [of _ en] exI [of _ ev] exI [of _ "[]"]) simp
    ultimately show ?thesis using r by (auto simp: shells_grow_def grown_def)
  qed
qed

lemma route_each:
  assumes "encodes (ke_services env)"
  shows "eachE (route_shell env) ibs s = (r, s') \<Longrightarrow>
    r = Inr () \<and> (\<forall>ib\<in>set ibs. handled ib s') \<and> shells_grow s s' \<and> shell_channel s' = shell_channel s"
proof (induction ibs arbitrary: s)
  case Nil
  then show ?case by (simp add: returnE_def shells_grow_refl)
next
  case (Cons ib ibs)
  obtain q t where route: "route_shell env ib s = (q, t)" by fastforce
  note one = route_shell_handles [OF assms route]
  with Cons.prems route have "eachE (route_shell env) ibs t = (r, s')" by (simp add: bindE_def)
  from Cons.IH [OF this] one show ?case by (auto intro: handled_grow shells_grow_trans)
qed

lemma route_pending_handles:
  assumes "encodes (ke_services env)" and "route_pending_shells env s = (r, s')"
  shows "r = Inr () \<and> (\<forall>ib\<in>set (shell_channel s). handled ib s') \<and> shells_grow s s' \<and> shell_channel s' = []"
proof -
  from assms(2) have "eachE (route_shell env) (shell_channel s) (s\<lparr>shell_channel := []\<rparr>) = (r, s')"
    by (simp add: route_pending_shells_def bindE_def stateE_def modifyE_def)
  from route_each [OF assms(1) this] show ?thesis by (simp add: shells_grow_def)
qed

lemma send_control_running:
  assumes "hm_get (shells s) i = Some h" and "h_task h = Pending"
  shows "send_control x i s = (Inr (), s\<lparr>shells := hm_insert i (command_shell x h) (shells s)\<rparr>)"
  using assms by (simp add: send_control_def bindE_def stateE_def modifyE_def)

lemma send_control_each:
  assumes "distinct is" and "\<forall>i\<in>set is. \<exists>h. hm_get (shells s) i = Some h \<and> h_task h = Pending"
  shows "\<exists>m. eachE (send_control x) is s = (Inr (), s\<lparr>shells := m\<rparr>) \<and>
    (\<forall>j. hm_get m j = (if j \<in> set is then map_option (command_shell x) (hm_get (shells s) j) else hm_get (shells s) j))"
  using assms
proof (induction "is" arbitrary: s)
  case Nil
  then show ?case by (intro exI [of _ "shells s"]) (simp add: returnE_def)
next
  case (Cons i "is")
  then obtain h where h: "hm_get (shells s) i = Some h" "h_task h = Pending" by auto
  let ?t = "s\<lparr>shells := hm_insert i (command_shell x h) (shells s)\<rparr>"
  have "\<forall>j\<in>set is. \<exists>h. hm_get (shells ?t) j = Some h \<and> h_task h = Pending"
    using Cons.prems by (auto simp: hm_get_insert)
  with Cons.IH [of ?t] Cons.prems(1) obtain m where m: "eachE (send_control x) is ?t = (Inr (), ?t\<lparr>shells := m\<rparr>)"
    "\<And>j. hm_get m j = (if j \<in> set is then map_option (command_shell x) (hm_get (shells ?t) j) else hm_get (shells ?t) j)"
    by auto
  have "eachE (send_control x) (i # is) s = (Inr (), s\<lparr>shells := m\<rparr>)"
    using m(1) send_control_running [OF h] by (simp add: bindE_def)
  moreover have "hm_get m j = (if j \<in> set (i # is) then map_option (command_shell x) (hm_get (shells s) j)
      else hm_get (shells s) j)" for j
    using m(2) [of j] Cons.prems(1) h by (auto simp: hm_get_insert)
  ultimately show ?case by blast
qed

lemma interrupt_shells_running:
  assumes "hm_ok (shells s)" and "\<And>i h. hm_get (shells s) i = Some h \<Longrightarrow> h_task h = Pending"
  shows "\<exists>m. interrupt_shells s = (Inr (), s\<lparr>shells := m\<rparr>) \<and>
    (\<forall>i. hm_get m i = map_option (command_shell Interrupt) (hm_get (shells s) i))"
proof -
  have keys: "i \<in> set (map fst (shells s)) \<longleftrightarrow> (\<exists>h. hm_get (shells s) i = Some h)" for i
    by (auto simp: hm_get_def map_of_eq_None_iff weak_map_of_SomeI) (metis domIff dom_map_of_conv_image_fst not_None_eq image_eqI fst_conv)
  have "distinct (map fst (shells s))" using assms(1) by (simp add: hm_ok_def)
  from send_control_each [OF this, of s Interrupt] keys assms(2) obtain m where
    "eachE (send_control Interrupt) (map fst (shells s)) s = (Inr (), s\<lparr>shells := m\<rparr>)"
    "\<And>j. hm_get m j = (if j \<in> set (map fst (shells s)) then map_option (command_shell Interrupt) (hm_get (shells s) j)
      else hm_get (shells s) j)" by metis
  moreover have "hm_get m j = map_option (command_shell Interrupt) (hm_get (shells s) j)" for j
    using calculation(2) [of j] keys [of j] by (cases "hm_get (shells s) j") auto
  ultimately show ?thesis
    by (intro exI [of _ m]) (simp add: interrupt_shells_def bindE_def stateE_def)
qed

section \<open>The invariant of the kernel\<close>

text \<open>Sending a message changes nothing beyond the world, whether it succeeds or not.\<close>

definition more_stable :: "('z world_scheme \<Rightarrow> bool) \<Rightarrow> bool" where
  "more_stable P \<longleftrightarrow> (\<forall>s t. world.more s = world.more t \<longrightarrow> P s = P t)"

lemma stableD: "more_stable P \<Longrightarrow> P s \<Longrightarrow> world.more t = world.more s \<Longrightarrow> P t"
  unfolding more_stable_def by blast

lemma stable_moment [keeps]: "more_stable P \<Longrightarrow> maintains P momentE"
  by (rule maintainsI, erule (1) stableD) (auto simp: momentE_def)

lemma stable_effect [keeps]: "more_stable P \<Longrightarrow> maintains P (effectE x)"
  by (rule maintainsI, erule (1) stableD) (auto simp: effectE_def)

lemma stable_send_iopub [keeps]: "more_stable P \<Longrightarrow> maintains P (send_iopub ks p t b)"
  unfolding send_iopub_def new_message_def publish_def by (intro keeps)

lemma stable_status [keeps]: "more_stable P \<Longrightarrow> maintains P (status ks p t)"
  unfolding status_def by (rule stable_send_iopub)

lemma stable_send_reply [keeps]: "more_stable P \<Longrightarrow> maintains P (send_reply ks sink req t b)"
  unfolding send_reply_def Let_def by (intro keeps)

lemma stable_reply_error [keeps]: "more_stable P \<Longrightarrow> maintains P (reply_error ks req sink b)"
  unfolding reply_error_def by (intro keeps)

lemma stable_subshell_error [keeps]: "more_stable P \<Longrightarrow> maintains P (reply_subshell_error ks ib en ev)"
  unfolding reply_subshell_error_def by (intro keeps)

lemma stable_not_found [keeps]: "more_stable P \<Longrightarrow> maintains P (reply_subshell_not_found ks ib)"
  unfolding reply_subshell_not_found_def by (rule stable_subshell_error)

text \<open>The maps of the kernel are well formed, and no route leads to the parent shell.\<close>

definition kernel_ok :: "kernel \<Rightarrow> bool" where
  "kernel_ok s \<longleftrightarrow> hm_ok (shells s) \<and> hm_ok (route_overrides s) \<and>
     (\<forall>c i. hm_get (route_overrides s) c = Some i \<longrightarrow> i \<noteq> '''')"

lemma kernel_ok_stable [keeps]: "more_stable kernel_ok"
proof -
  have "kernel_ok s = kernel_ok t" if "world.more s = world.more t" for s t
    unfolding kernel_ok_def kernel_more(1,2) [OF that] ..
  then show ?thesis unfolding more_stable_def by blast
qed

lemma kernel_ok_shells: "hm_ok m \<Longrightarrow> kernel_ok s \<Longrightarrow> kernel_ok (s\<lparr>shells := m\<rparr>)"
  by (simp add: kernel_ok_def)

lemma kernel_ok_routes:
  "kernel_ok s \<Longrightarrow> i \<noteq> '''' \<Longrightarrow> kernel_ok (s\<lparr>route_overrides := hm_insert c i (route_overrides s)\<rparr>)"
  "kernel_ok s \<Longrightarrow> kernel_ok (s\<lparr>route_overrides := hm_remove c (route_overrides s)\<rparr>)"
  "kernel_ok s \<Longrightarrow> kernel_ok (s\<lparr>route_overrides := hm_retain p (route_overrides s)\<rparr>)"
  by (auto simp: kernel_ok_def hm_get_insert hm_get_remove hm_get_retain split: if_splits option.splits)

lemma kernel_ok_same [simp]:
  "kernel_ok (s\<lparr>shell_channel := a\<rparr>) = kernel_ok s" "kernel_ok (s\<lparr>control_channel := b\<rparr>) = kernel_ok s"
  "kernel_ok (s\<lparr>commands := c\<rparr>) = kernel_ok s" "kernel_ok (s\<lparr>failures := d\<rparr>) = kernel_ok s"
  "kernel_ok (s\<lparr>retiring := e\<rparr>) = kernel_ok s"
  by (simp_all add: kernel_ok_def)

lemma kernel_ok_create [keeps]: "maintains kernel_ok (create_subshell env i)"
proof (rule maintainsI)
  fix s r s' assume ok: "kernel_ok s" and run: "create_subshell env i s = (r, s')"
  note spec = create_subshell_spec [OF run]
  have "world.more s' = world.more s \<or> (\<exists>j. world.more s' = world.more (s\<lparr>shells := hm_insert j spawned (shells s)\<rparr>))"
    using spec(2,3) by (cases r) (fastforce split: if_splits)+
  then show "kernel_ok s'"
  proof (elim disjE exE)
    assume "world.more s' = world.more s"
    then show ?thesis by (rule stableD [OF kernel_ok_stable ok])
  next
    fix j assume more: "world.more s' = world.more (s\<lparr>shells := hm_insert j spawned (shells s)\<rparr>)"
    have "kernel_ok (s\<lparr>shells := hm_insert j spawned (shells s)\<rparr>)"
      using ok by (intro kernel_ok_shells) (auto simp: kernel_ok_def)
    then show ?thesis using more by (rule stableD [OF kernel_ok_stable])
  qed
qed

text \<open>The operations that look at the state before they change it.\<close>

lemma maintains_look: "(\<And>s. maintains P (f s)) \<Longrightarrow> maintains P (bindE stateE f)"
  by (rule maintains_state) (auto dest: maintainsD)

lemma kernel_ok_send_to_shell [keeps]: "maintains kernel_ok (send_to_shell env i ib)"
  unfolding send_to_shell_def
  by (rule maintains_look) (intro keeps maintains_modify kernel_ok_shells; simp add: kernel_ok_def hm_ok_insert)

lemma kernel_ok_route_shell [keeps]: "maintains kernel_ok (route_shell env ib)"
  unfolding route_shell_def Let_def by (rule maintains_look) (intro keeps)

lemma kernel_ok_route_pending [keeps]: "maintains kernel_ok (route_pending_shells env)"
  unfolding route_pending_shells_def
  by (rule maintains_look) (intro maintains_bind maintains_modify maintains_each kernel_ok_route_shell; simp)

lemma kernel_ok_send_control [keeps]: "maintains kernel_ok (send_control x i)"
  unfolding send_control_def
  by (rule maintains_look) (intro keeps maintains_modify kernel_ok_shells; simp add: kernel_ok_def hm_ok_insert)

lemma kernel_ok_interrupt [keeps]: "maintains kernel_ok interrupt_shells"
  unfolding interrupt_shells_def by (rule maintains_look) (intro keeps)

lemma kernel_ok_stop [keeps]: "maintains kernel_ok (stop_in_background h b d)"
  unfolding stop_in_background_def by (rule maintains_modify) simp

lemma kernel_ok_open:
  "maintains kernel_ok (bindE (create_subshell env r) (\<lambda>i.
     bindE (modifyE (\<lambda>s. s\<lparr>route_overrides := hm_insert c i (route_overrides s)\<rparr>)) (\<lambda>_. returnE i)))"
proof (rule maintainsI)
  fix s q s' assume ok: "kernel_ok s" and run: "bindE (create_subshell env r) (\<lambda>i.
     bindE (modifyE (\<lambda>s. s\<lparr>route_overrides := hm_insert c i (route_overrides s)\<rparr>)) (\<lambda>_. returnE i)) s = (q, s')"
  obtain p t where create: "create_subshell env r s = (p, t)" by fastforce
  have "kernel_ok t" using maintainsD [OF kernel_ok_create ok create] .
  with run create create_subshell_spec(3) [OF create] show "kernel_ok s'"
    by (cases p) (auto simp: bindE_def modifyE_def returnE_def intro: kernel_ok_routes(1))
qed

lemma kernel_ok_command [keeps]: "maintains kernel_ok (handle_command env x)"
proof (cases x)
  case (Open c r n)
  show ?thesis
    unfolding Open handle_command.simps
    by (rule maintains_look) (intro keeps kernel_ok_open)
next
  case (CloseRoute c i d n)
  show ?thesis
    unfolding CloseRoute handle_command.simps
    by (rule maintains_look)
      (intro keeps maintains_modify kernel_ok_routes kernel_ok_shells; simp add: kernel_ok_def hm_ok_remove)
qed

lemma kernel_ok_create_request [keeps]: "maintains kernel_ok (create_request env ib)"
  unfolding create_request_def Let_def by (intro keeps)

lemma kernel_ok_list_request [keeps]: "maintains kernel_ok (list_request env ib)"
  unfolding list_request_def by (rule maintains_look) (intro keeps)

lemma kernel_ok_delete_request [keeps]: "maintains kernel_ok (delete_request env ib)"
  unfolding delete_request_def Let_def
  by (rule maintains_look) (intro keeps maintains_modify; auto simp: kernel_ok_def hm_get_retain split: option.splits if_splits)

lemma kernel_ok_release_all [keeps]: "maintains kernel_ok (release_all env mid st is found)"
  by (induction "is" arbitrary: found) (auto simp: release_in_def intro!: keeps)

lemma kernel_ok_release_request [keeps]: "maintains kernel_ok (release_request env ib)"
  unfolding release_request_def Let_def by (intro keeps maintains_look)

lemma kernel_ok_debug_request [keeps]: "maintains kernel_ok (debug_request env ib)"
  unfolding debug_request_def Let_def by (intro keeps)

lemma kernel_ok_control [keeps]: "maintains kernel_ok (handle_control env ib)"
  unfolding handle_control_def Let_def by (intro keeps)

lemma kernel_ok_shell_ended [keeps]: "maintains kernel_ok (shell_ended i)"
  unfolding shell_ended_def
  by (rule maintains_look) (intro keeps maintains_modify; auto simp: kernel_ok_def hm_get_retain split: option.splits if_splits)

lemma kernel_ok_branch: "maintains kernel_ok (take_branch env b)"
proof (cases b)
  case (ServiceEnded t)
  show ?thesis unfolding ServiceEnded take_branch.simps by (intro keeps)
qed (auto intro!: maintains_look keeps maintains_modify)

lemma kernel_ok_debug_sender: "maintains kernel_ok (debug_sender ks ev)"
  unfolding debug_sender_def new_message_def publish_def by (intro keeps maintains_modify) simp_all

lemma kernel_ok_retirement: "maintains kernel_ok (finish_retirement ks r d)"
  unfolding finish_retirement_def by (cases d) (auto intro!: keeps maintains_modify)

interpretation kn: inductive_invariant kernel_start "kernel_step env" "\<lambda>c. kernel_ok (snd c)"
proof
  show "kernel_ok (snd c)" if "kernel_start c" for c
    using that by (auto simp: kernel_start_def kernel_new_def kernel_ok_def hm_ok_def hm_get_def)
next
  fix c d assume "kernel_ok (snd c)" and "kernel_step env c d"
  from this(2,1) show "kernel_ok (snd d)"
  proof (cases rule: kernel_step.cases)
    case (branch b s r s')
    with \<open>kernel_ok (snd c)\<close> show ?thesis using maintainsD [OF kernel_ok_branch] by auto
  next
    case (shell_end s i h t)
    with \<open>kernel_ok (snd c)\<close> show ?thesis by (auto simp: kernel_ok_def)
  next
    case (retire h d s r r' s' x)
    with \<open>kernel_ok (snd c)\<close> show ?thesis using maintainsD [OF kernel_ok_retirement] by auto
  next
    case (debug_event ev s r s' x)
    with \<open>kernel_ok (snd c)\<close> show ?thesis using maintainsD [OF kernel_ok_debug_sender] by auto
  qed auto
qed

section \<open>Control requests\<close>

lemma reply_type_of_request:
  "reply_type ''create_subshell_request'' = ''create_subshell_reply''"
  "reply_type ''list_subshell_request'' = ''list_subshell_reply''"
  "reply_type ''delete_subshell_request'' = ''delete_subshell_reply''"
  "reply_type ''shutdown_request'' = ''shutdown_reply''"
  "reply_type ''debug_request'' = ''debug_reply''"
  "reply_type ''interrupt_request'' = ''interrupt_reply''"
  "reply_type ''release_request'' = ''release_reply''"
  by code_simp+

lemma control_types_are_requests:
  "ends_with ''create_subshell_request'' ''_request''" "ends_with ''list_subshell_request'' ''_request''"
  "ends_with ''delete_subshell_request'' ''_request''" "ends_with ''shutdown_request'' ''_request''"
  "ends_with ''debug_request'' ''_request''"
  by code_simp+

text \<open>An operation on a control request that sends exactly one reply to it.\<close>

definition answered :: "inbound \<Rightarrow> (kernel, 'a) eng \<Rightarrow> kernel \<Rightarrow> 'a \<Rightarrow> bool" where
  "answered ib m s b \<longleftrightarrow> (\<exists>es s'. m s = (Inr b, s') \<and> observed s' = observed s @ es \<and> single_reply ib es)"

lemma answered_emits: "emits m es b \<Longrightarrow> single_reply ib es \<Longrightarrow> answered ib m s b"
  unfolding answered_def by (erule emits_obtain [of m es b s]) blast

lemma answered_then: "answered ib m s () \<Longrightarrow> answered ib (bindE m (\<lambda>_. returnE c)) s c"
  by (fastforce simp: answered_def bindE_def returnE_def)

lemma answered_send:
  "encodes ks \<Longrightarrow> t = reply_type (msg_type (message ib)) \<Longrightarrow>
   answered ib (send_reply ks (reply ib) (message ib) t b) s ()"
  by (rule answered_emits, erule emits_send_reply) (auto simp: single_reply_def)

lemma answered_create:
  assumes "encodes (ke_services env)" and "msg_type (message ib) = ''create_subshell_request''"
  shows "answered ib (create_request env ib) s ()"
proof -
  let ?ks = "ke_services env" and ?answer = "send_reply (ke_services env) (reply ib) (message ib) ''create_subshell_reply''"
  have send: "answered ib (?answer b) t ()" for b t
    using assms by (intro answered_send) (simp_all add: reply_type_of_request)
  obtain q t where create: "create_subshell env (case json_get (content (message ib)) ''subshell_id'' of
      Some v \<Rightarrow> as_str v | None \<Rightarrow> None) s = (q, t)" by fastforce
  show ?thesis
  proof (cases "supports_children (ke_language env)")
    case True
    with send [of _ t] create create_subshell_spec(1) [OF create] show ?thesis
      by (simp add: create_request_def Let_def answered_def bindE_def tryE_def)
  next
    case False
    then show ?thesis by (simp add: create_request_def Let_def send)
  qed
qed

lemma answered_list:
  assumes "encodes (ke_services env)" and "msg_type (message ib) = ''list_subshell_request''"
  shows "answered ib (list_request env ib) s ()"
  using answered_send [OF assms(1), of "''list_subshell_reply''" ib] assms(2)
  by (simp add: list_request_def answered_def bindE_def stateE_def reply_type_of_request)

lemma emits_events:
  assumes "encodes ks"
  shows "emits (eachE (send_iopub ks req t) bs) (map (\<lambda>b. Pub (notice t b req)) bs) ()"
proof -
  have "emits (eachE (send_iopub ks req t) bs) (concat (map (\<lambda>b. [Pub (notice t b req)]) bs)) ()"
    by (rule emits_each, rule emits_send_iopub [OF assms])
  then show ?thesis by (simp add: concat_map_singleton)
qed

lemma replies_notices: "replies (map (\<lambda>b. Pub (f b)) bs) = []"
  by (induction bs) simp_all

lemma emits_debug_request:
  assumes "encodes (ke_services env)"
  shows "\<exists>b bs s'. debug_request env ib s = (Inr (), s') \<and> observed s' = observed s @
    [busy (message ib), Rep (reply ib) (notice ''debug_reply'' b (message ib))] @
    map (\<lambda>b. Pub (notice ''debug_event'' b (message ib))) bs @ [idle (message ib)]"
proof -
  let ?ks = "ke_services env" and ?req = "message ib"
  obtain s1 where s1: "status ?ks ?req ''busy'' s = (Inr (), s1)" "observed s1 = observed s @ [busy ?req]"
    using emits_obtain [OF emits_status [OF assms, of ?req "''busy''"], of s] by (auto simp: busy_def)
  let ?v = "case lang_debug (parent_session (ke_language env)) (draws s1) (content ?req) of
    Inr v \<Rightarrow> v | Inl e \<Rightarrow> debug_failed (content ?req) e"
  let ?b = "case json_get ?v ''response'' of Some v \<Rightarrow> v | None \<Rightarrow> JObj []"
  let ?bs = "case Option.bind (json_get ?v ''events'') as_array of Some evs \<Rightarrow> evs | None \<Rightarrow> []"
  let ?rest = "bindE (send_reply ?ks (reply ib) ?req ''debug_reply'' ?b) (\<lambda>_.
    bindE (eachE (send_iopub ?ks ?req ''debug_event'') ?bs) (\<lambda>_. status ?ks ?req ''idle''))"
  have "emits ?rest ([Rep (reply ib) (notice ''debug_reply'' ?b ?req)] @
      map (\<lambda>b. Pub (notice ''debug_event'' b ?req)) ?bs @ [idle ?req]) ()"
    unfolding idle_def
    by (rule emits_bind [OF emits_send_reply [OF assms] emits_bind [OF emits_events [OF assms] emits_status [OF assms]]])
  from emits_obtain [OF this, of "s1\<lparr>draws := Suc (draws s1)\<rparr>"] s1 show ?thesis
    by (intro exI [of _ ?b] exI [of _ ?bs]) (auto simp: debug_request_def Let_def bindE_def momentE_def)
qed

lemma answered_debug:
  assumes "encodes (ke_services env)" and "msg_type (message ib) = ''debug_request''"
  shows "answered ib (debug_request env ib) s ()"
  using emits_debug_request [OF assms(1), of ib s] assms(2)
  by (fastforce simp: answered_def single_reply_def replies_notices reply_type_of_request)

text \<open>
  C14. A control request that the kernel answers at once gets exactly one reply, of its own
  type and on its own connection, and only a shutdown request ends the loop; a control
  message that is not a request is ignored.
\<close>

theorem control_answered:
  assumes "encodes (ke_services env)" and t: "t = msg_type (message ib)"
    and "t \<notin> {''interrupt_request'', ''release_request'', ''delete_subshell_request''}"
  shows "\<exists>es s'. handle_control env ib s = (Inr (t = ''shutdown_request''), s') \<and> observed s' = observed s @ es \<and>
    (if ends_with t ''_request'' then single_reply ib es else es = [])"
proof -
  note send = answered_send [OF assms(1), of _ ib]
  note control = handle_control_def Let_def t [symmetric]
  have ne: "t \<noteq> ''interrupt_request''" "t \<noteq> ''release_request''" "t \<noteq> ''delete_subshell_request''"
    using assms(3) by blast+
  consider "\<not> ends_with t ''_request''" | "t = ''shutdown_request''" | "t = ''create_subshell_request''"
    | "t = ''list_subshell_request''" | "t = ''debug_request''"
    | "ends_with t ''_request''" "t \<noteq> ''shutdown_request''" "t \<noteq> ''create_subshell_request''"
      "t \<noteq> ''list_subshell_request''" "t \<noteq> ''debug_request''" by blast
  then have "answered ib (handle_control env ib) s (t = ''shutdown_request'') \<and> ends_with t ''_request'' \<or>
    \<not> ends_with t ''_request'' \<and> handle_control env ib s = (Inr (t = ''shutdown_request''), s)"
  proof cases
    case 1
    then have "t \<noteq> ''shutdown_request''" "t \<noteq> ''create_subshell_request''"
      "t \<noteq> ''list_subshell_request''" "t \<noteq> ''debug_request''" using control_types_are_requests by metis+
    with 1 ne show ?thesis by (simp add: control returnE_def)
  next
    case 2
    with answered_then [OF send [OF refl]] control_types_are_requests show ?thesis
      by (simp add: control reply_type_of_request)
  next
    case 3
    with answered_then [OF answered_create [OF assms(1), of ib]] control_types_are_requests show ?thesis by (simp add: control)
  next
    case 4
    with answered_then [OF answered_list [OF assms(1), of ib]] control_types_are_requests show ?thesis by (simp add: control)
  next
    case 5
    with answered_then [OF answered_debug [OF assms(1), of ib]] control_types_are_requests show ?thesis by (simp add: control)
  next
    case 6
    with answered_then [OF send [OF refl]] ne show ?thesis by (simp add: control)
  qed
  then show ?thesis unfolding answered_def by auto
qed

definition demo_family :: language_family where
  "demo_family = \<lparr>parent_session = demo_language, supports_children = True, create_child = (\<lambda>_. Inr demo_language)\<rparr>"

definition demo_env :: kernel_env where
  "demo_env = \<lparr>ke_services = demo_services, ke_language = demo_family, ke_released = (\<lambda>_ _ _. Some True)\<rparr>"

lemma demo_env_encodes: "encodes (ke_services demo_env)"
  by (simp add: demo_env_def demo_encodes)

theorem control_answered_witness:
  "\<exists>es s'. handle_control demo_env (demo_request ''shutdown_request'' JNull [] 4) (kernel_new demo_world) = (Inr True, s') \<and>
     observed s' = observed (kernel_new demo_world) @ es \<and>
     single_reply (demo_request ''shutdown_request'' JNull [] 4) es"
proof -
  have "ends_with ''shutdown_request'' ''_request''" by code_simp
  with control_answered [OF demo_env_encodes refl, of "demo_request ''shutdown_request'' JNull [] 4" "kernel_new demo_world"]
  show ?thesis by simp
qed

section \<open>Properties\<close>

text \<open>
  C4. Every message of the shell channel goes to exactly one place: it is appended to the
  incoming messages of the one shell it is routed to, a new one where its subshell did not
  exist, and no other shell is touched and nothing is sent; or no shell is touched and the
  message is refused, with exactly one reply when it is a request and silently otherwise.
\<close>

theorem routed_once:
  assumes "encodes (ke_services env)" and "route_shell env ib s = (r, s')"
  shows "r = Inr () \<and> route_overrides s' = route_overrides s \<and> (\<exists>es. observed s' = observed s @ es \<and>
    (es = [] \<and> delivered (route_target (route_overrides s) (message ib)) ib s s' \<or>
     shells s' = shells s \<and>
       (if ends_with (msg_type (message ib)) ''_request'' then single_reply ib es else es = [])))"
proof -
  from route_shell_spec [OF assms refl] obtain es where
    "r = Inr ()" "route_overrides s' = route_overrides s" "observed s' = observed s @ es"
    "es = [] \<and> delivered (route_target (route_overrides s) (message ib)) ib s s' \<or>
     shells s' = shells s \<and> (\<exists>en ev. es = refusal ib en ev)" by blast
  with refusal_answers [of ib] show ?thesis by blast
qed

theorem routed_once_witness:
  "\<exists>r s'. route_shell demo_env (demo_request ''execute_request'' JNull [] 4) (kernel_new demo_world) = (r, s') \<and> r = Inr () \<and>
     hm_get (shells s') '''' = Some (accept (demo_request ''execute_request'' JNull [] 4) spawned)"
proof -
  let ?ib = "demo_request ''execute_request'' JNull [] 4" and ?s = "kernel_new demo_world"
  obtain r s' where run: "route_shell demo_env ?ib ?s = (r, s')" by fastforce
  have "hm_get (shells (snd (route_shell demo_env ?ib ?s))) '''' = Some (accept ?ib spawned)" by code_simp
  with run have "hm_get (shells s') '''' = Some (accept ?ib spawned)" by simp
  with run show ?thesis using routed_once [OF demo_env_encodes run] by blast
qed



text \<open>
  C18. In every state the kernel can reach, each shell and each routed client session is
  listed once, and no route leads to the parent shell.
\<close>

theorem kernel_maps_wellformed:
  assumes "reachable kernel_start (kernel_step env) (x, s)"
  shows "distinct (map fst (shells s)) \<and> distinct (map fst (route_overrides s)) \<and>
    (\<forall>c. hm_get (route_overrides s) c \<noteq> Some '''')"
  using kn.inv_reachable [OF assms] by (auto simp: kernel_ok_def hm_ok_def)

theorem kernel_maps_wellformed_witness:
  "\<exists>s r. take_branch demo_env CommandReceived ((kernel_new demo_world)\<lparr>commands := [Open ''c'' (Some ''a'') 1]\<rparr>) = (r, s) \<and>
     hm_get (route_overrides s) ''c'' = Some ''a'' \<and> distinct (map fst (route_overrides s))"
proof -
  let ?s = "kernel_new demo_world" and ?t = "(kernel_new demo_world)\<lparr>commands := [Open ''c'' (Some ''a'') 1]\<rparr>"
  obtain r s where run: "take_branch demo_env CommandReceived ?t = (r, s)" by fastforce
  have "reachable kernel_start (kernel_step demo_env) (None, ?s)"
    by (rule reach_start) (auto simp: kernel_start_def)
  then have "reachable kernel_start (kernel_step demo_env) (None, ?t)"
    by (rule reach_step) (use kernel_step.command [of demo_env ?s] in \<open>simp add: kernel_new_def\<close>)
  then have "reachable kernel_start (kernel_step demo_env) (if r = Inr False then None else Some r, s)"
    by (rule reach_step) (rule kernel_step.branch [OF run])
  moreover have "hm_get (route_overrides (snd (take_branch demo_env CommandReceived ?t))) ''c'' = Some ''a''" by code_simp
  ultimately show ?thesis using run kernel_maps_wellformed by fastforce
qed

text \<open>
  C13. Deleting a subshell takes effect at once and is answered once. The shell leaves the
  map with every route to it, the other shells and routes stay, and nothing is sent yet; the
  shell, told to interrupt and then to stop, is left to a background task. When that task
  ends well it sends the one reply, and when the shell failed the failure is reported to the
  loop instead.
\<close>

theorem subshell_deleted:
  assumes "encodes (ke_services env)" and "kernel_ok s"
    and i: "i = str_field (content (message ib)) ''subshell_id'' ''''"
    and "hm_get (shells s) i = Some h" and "h_task h = Pending"
  shows "\<exists>s'. delete_request env ib s = (Inr (), s') \<and> observed s' = observed s \<and>
    (\<forall>j. hm_get (shells s') j = (if j = i then None else hm_get (shells s) j)) \<and>
    (\<forall>c. hm_get (route_overrides s') c = (if hm_get (route_overrides s) c = Some i then None
      else hm_get (route_overrides s) c)) \<and>
    retiring s' = retiring s @ [(h\<lparr>h_controls := h_controls h @ [Interrupt, Stop]\<rparr>, ReplyDeleted (message ib) (reply ib))] \<and>
    (\<forall>t. \<exists>u. finish_retirement (ke_services env) (Inr ()) (ReplyDeleted (message ib) (reply ib)) t = (Inr (), u) \<and>
       observed u = observed t @ [Rep (reply ib) (notice ''delete_subshell_reply'' deleted_reply (message ib))]) \<and>
    (\<forall>t e. finish_retirement (ke_services env) (Inl e) (ReplyDeleted (message ib) (reply ib)) t =
       (Inr (), t\<lparr>failures := failures t @ [e]\<rparr>))"
proof -
  let ?d = "ReplyDeleted (message ib) (reply ib)"
  have "\<exists>u. finish_retirement (ke_services env) (Inr ()) ?d t = (Inr (), u) \<and>
      observed u = observed t @ [Rep (reply ib) (notice ''delete_subshell_reply'' deleted_reply (message ib))]" for t
    by (rule emits_obtain [OF emits_send_reply [OF assms(1)], of "reply ib" "message ib" "''delete_subshell_reply''" deleted_reply t])
      (simp add: finish_retirement_def bindE_def tryE_def liftE_def returnE_def)
  moreover have "finish_retirement (ke_services env) (Inl e) ?d t = (Inr (), t\<lparr>failures := failures t @ [e]\<rparr>)" for t e
    by (simp add: finish_retirement_def bindE_def tryE_def liftE_def modifyE_def)
  moreover have "hm_get (hm_retain (\<lambda>_ routed. routed \<noteq> i) (route_overrides s)) c =
      (if hm_get (route_overrides s) c = Some i then None else hm_get (route_overrides s) c)" for c
    using assms(2) by (simp add: kernel_ok_def hm_get_retain split: option.split)
  ultimately show ?thesis
    using assms(4,5) unfolding delete_request_def Let_def i [symmetric]
    by (simp add: bindE_def stateE_def modifyE_def stop_in_background_def stop_shell_def command_shell_def hm_get_remove)
qed

theorem subshell_deleted_witness:
  "\<exists>s'. delete_request demo_env (demo_request ''delete_subshell_request'' (JObj [(''subshell_id'', JStr ''a'')]) [] 6)
      ((kernel_new demo_world)\<lparr>shells := [(''a'', spawned)], route_overrides := [(''c'', ''a'')]\<rparr>) = (Inr (), s') \<and>
    hm_get (route_overrides s') ''c'' = None \<and> length (retiring s') = 1"
proof -
  let ?ib = "demo_request ''delete_subshell_request'' (JObj [(''subshell_id'', JStr ''a'')]) [] 6"
  let ?s = "(kernel_new demo_world)\<lparr>shells := [(''a'', spawned)], route_overrides := [(''c'', ''a'')]\<rparr>"
  have "kernel_ok ?s" by (simp add: kernel_ok_def hm_ok_def hm_get_def)
  moreover have "''a'' = str_field (content (message ?ib)) ''subshell_id'' ''''" by code_simp
  moreover have "hm_get (shells ?s) ''a'' = Some spawned" "h_task spawned = Pending"
    "hm_get (route_overrides ?s) ''c'' = Some ''a''" "retiring ?s = []"
    by (simp_all add: hm_get_def spawned_def kernel_new_def)
  ultimately show ?thesis
    using subshell_deleted [OF demo_env_encodes, of ?s "''a''" ?ib spawned] by auto
qed

text \<open>
  A route comes and goes with its commands. When \<open>open_subshell\<close> succeeds for a
  client session without a route, its plain execute requests go to a shell that exists and
  is not the parent; when the route is closed again without deleting the shell, they go to
  the parent as before, the routes are those from before and the shells are untouched.
\<close>

theorem route_opened_and_closed:
  assumes "hm_get (route_overrides s) c = None"
    and "handle_command env (Open c wanted n) s = (r, s1)" and "last (trace s1) = Opened n (Inr i)"
    and "handle_command env (CloseRoute c i False k) s1 = (q, s2)"
    and "msg_type m = ''execute_request''" and "subshell_id m = ''''" and "client_session m = c"
  shows "i \<noteq> '''' \<and> hm_contains_key (shells s1) i \<and> route_target (route_overrides s1) m = i \<and>
    route_target (route_overrides s2) m = '''' \<and> shells s2 = shells s1 \<and>
    (\<forall>d. hm_get (route_overrides s2) d = hm_get (route_overrides s) d)"
proof -
  obtain p t where create: "create_subshell env wanted s = (p, t)" by fastforce
  have "p = Inr i" and s1: "route_overrides s1 = hm_insert c i (route_overrides t)" "shells s1 = shells t"
    using assms(1-3) create
    by (auto simp: bindE_def stateE_def tryE_def modifyE_def returnE_def effectE_def hm_contains_key_def split: sum.splits)
  note spec = create_subshell_spec(3) [OF create \<open>p = Inr i\<close>]
  from spec have routes: "route_overrides t = route_overrides s" and "hm_contains_key (shells t) i"
    using kernel_more [of t] by (auto simp: hm_contains_key_def hm_get_insert split: if_splits)
  moreover have "route_overrides s2 = hm_remove c (route_overrides s1)" "shells s2 = shells s1"
    using assms(4) by (auto simp: bindE_def stateE_def modifyE_def effectE_def s1 hm_get_insert)
  ultimately show ?thesis
    using spec assms(1,5-7) by (auto simp: s1 route_target_def hm_get_insert hm_get_remove)
qed

theorem route_opened_and_closed_witness:
  "\<exists>r s1. handle_command demo_env (Open ''c'' (Some ''a'') 1) (kernel_new demo_world) = (r, s1) \<and>
     hm_contains_key (shells s1) ''a''"
proof -
  let ?s = "kernel_new demo_world"
  let ?m = "(message (demo_request ''execute_request'' JNull [] 4))\<lparr>header := [(''msg_type'', JStr ''execute_request''),
    (''session'', JStr ''c'')]\<rparr>"
  obtain r s1 where run: "handle_command demo_env (Open ''c'' (Some ''a'') 1) ?s = (r, s1)" by fastforce
  obtain q s2 where closed: "handle_command demo_env (CloseRoute ''c'' ''a'' False 2) s1 = (q, s2)" by fastforce
  have "last (trace (snd (handle_command demo_env (Open ''c'' (Some ''a'') 1) ?s))) = Opened 1 (Inr ''a'')" by code_simp
  with run have "last (trace s1) = Opened 1 (Inr ''a'')" by simp
  moreover have "hm_get (route_overrides ?s) ''c'' = None" "msg_type ?m = ''execute_request''" "subshell_id ?m = ''''"
    "client_session ?m = ''c''" by code_simp+
  ultimately show ?thesis using route_opened_and_closed [OF _ run _ closed] run by blast
qed

text \<open>
  Closing a route with its subshell leaves the routes of other client sessions that
  lead there: they then name a shell that does not exist, and the plain execute requests of
  those sessions are refused.
\<close>

theorem closing_leaves_other_routes:
  assumes "encodes (ke_services env)" and "hm_get (route_overrides s) c = Some i" and "hm_get (route_overrides s) d = Some i"
    and "c \<noteq> d" and "hm_get (shells s) i = Some h"
    and "handle_command env (CloseRoute c i True k) s = (r, s')"
    and "msg_type (message ib) = ''execute_request''" and "subshell_id (message ib) = ''''"
    and "client_session (message ib) = d"
  shows "hm_get (route_overrides s') d = Some i \<and> hm_get (shells s') i = None \<and>
    (\<exists>q s''. route_shell env ib s' = (q, s'') \<and>
       observed s'' = observed s' @ refusal ib ''SubshellNotFound'' (''Unknown subshell_id '' @ debug_str ''''))"
proof -
  have s': "route_overrides s' = hm_remove c (route_overrides s)" "shells s' = hm_remove i (shells s)"
    using assms(2,5,6) by (auto simp: bindE_def stateE_def modifyE_def stop_in_background_def)
  then have gone: "hm_get (shells s') i = None" and kept: "hm_get (route_overrides s') d = Some i"
    using assms(3,4) by (simp_all add: hm_get_remove)
  moreover have "route_target (route_overrides s') (message ib) = i"
    using kept assms(7-9) by (simp add: route_target_def)
  then have "route_shell env ib s' = reply_subshell_not_found (ke_services env) ib s'"
    using assms(8) gone by (simp add: route_shell_def bindE_def stateE_def Let_def send_to_shell_def returnE_def)
  ultimately show ?thesis using emits_obtain [OF emits_not_found [OF assms(1), of ib], of s'] assms(8) by metis
qed

definition demo_shared :: kernel where
  "demo_shared = (kernel_new demo_world)\<lparr>shells := [(''a'', spawned)], route_overrides := [(''c'', ''a''), (''d'', ''a'')]\<rparr>"

definition demo_from :: "string \<Rightarrow> inbound" where
  "demo_from c = \<lparr>message = \<lparr>identities = [], header = [(''msg_type'', JStr ''execute_request''), (''session'', JStr c)],
     parent_header = [], metadata = [], content = JNull, buffers = []\<rparr>, reply = 1, identity = ''x''\<rparr>"

theorem closing_leaves_other_routes_witness:
  "\<exists>r s'. handle_command demo_env (CloseRoute ''c'' ''a'' True 2) demo_shared = (r, s') \<and>
     hm_get (route_overrides s') ''d'' = Some ''a'' \<and> hm_get (shells s') ''a'' = None"
proof -
  obtain r s' where run: "handle_command demo_env (CloseRoute ''c'' ''a'' True 2) demo_shared = (r, s')" by fastforce
  have "hm_get (route_overrides demo_shared) ''c'' = Some ''a''" "hm_get (route_overrides demo_shared) ''d'' = Some ''a''"
    "hm_get (shells demo_shared) ''a'' = Some spawned" "msg_type (message (demo_from ''d'')) = ''execute_request''"
    "subshell_id (message (demo_from ''d'')) = ''''" "client_session (message (demo_from ''d'')) = ''d''"
    by code_simp+
  with closing_leaves_other_routes [OF demo_env_encodes _ _ _ _ run, of "''d''" spawned "demo_from ''d''"] run
  show ?thesis by auto
qed

text \<open>
  C20. The parent shell can be deleted: a delete request without a subshell id, or with an
  empty one, removes it, and from then on every message that names no subshell and has no
  route is refused.
\<close>

theorem parent_shell_deletable:
  assumes "encodes (ke_services env)" and "str_field (content (message ib)) ''subshell_id'' '''' = ''''"
    and "hm_get (shells s) '''' = Some h" and "delete_request env ib s = (r, s')"
    and "subshell_id (message other) = ''''" and "hm_get (route_overrides s) (client_session (message other)) = None"
    and "kernel_ok s"
  shows "hm_get (shells s') '''' = None \<and> (\<exists>q s''. route_shell env other s' = (q, s'') \<and>
    observed s'' = observed s' @ refusal other ''SubshellNotFound'' (''Unknown subshell_id '' @ debug_str ''''))"
proof -
  have s': "shells s' = hm_remove '''' (shells s)"
    "route_overrides s' = hm_retain (\<lambda>_ routed. routed \<noteq> '''') (route_overrides s)"
    using assms(2-4) by (auto simp: delete_request_def Let_def bindE_def stateE_def modifyE_def stop_in_background_def)
  then have gone: "hm_get (shells s') '''' = None" and none: "hm_get (route_overrides s') (client_session (message other)) = None"
    using assms(6,7) by (simp_all add: hm_get_remove hm_get_retain kernel_ok_def)
  moreover have "route_target (route_overrides s') (message other) = ''''"
    using none assms(5) by (simp add: route_target_def)
  then have "route_shell env other s' = reply_subshell_not_found (ke_services env) other s'"
    using assms(5) gone by (simp add: route_shell_def bindE_def stateE_def Let_def send_to_shell_def returnE_def)
  ultimately show ?thesis using emits_obtain [OF emits_not_found [OF assms(1), of other], of s'] assms(5) by metis
qed

theorem parent_shell_deletable_witness:
  "\<exists>r s'. delete_request demo_env (demo_request ''delete_subshell_request'' JNull [] 3) (kernel_new demo_world) = (r, s') \<and>
     hm_get (shells s') '''' = None"
proof -
  let ?ib = "demo_request ''delete_subshell_request'' JNull [] 3"
  obtain r s' where run: "delete_request demo_env ?ib (kernel_new demo_world) = (r, s')" by fastforce
  have "kernel_ok (kernel_new demo_world)" by (simp add: kernel_ok_def kernel_new_def hm_ok_def hm_get_def)
  moreover have "str_field (content (message ?ib)) ''subshell_id'' '''' = ''''" "subshell_id (message (demo_from ''d'')) = ''''"
    "hm_get (shells (kernel_new demo_world)) '''' = Some spawned"
    "hm_get (route_overrides (kernel_new demo_world)) (client_session (message (demo_from ''d''))) = None" by code_simp+
  ultimately show ?thesis using parent_shell_deletable [OF demo_env_encodes _ _ run] run by metis
qed

lemma send_control_each_ended:
  assumes "hm_get (shells s) i = Some h" and "h_task h \<noteq> Pending" and "i \<in> set is"
  shows "\<exists>s'. eachE (send_control x) is s = (Inl from_send, s')"
  using assms
proof (induction "is" arbitrary: s)
  case (Cons j js)
  show ?case
  proof (cases "\<exists>g. hm_get (shells s) j = Some g \<and> h_task g \<noteq> Pending")
    case True
    then show ?thesis by (auto simp: send_control_def bindE_def stateE_def liftE_def)
  next
    case False
    with Cons.prems have "j \<noteq> i" "i \<in> set js" by auto
    obtain t where "send_control x j s = (Inr (), t)" "hm_get (shells t) i = Some h"
      using False Cons.prems(1) \<open>j \<noteq> i\<close>
      by (cases "hm_get (shells s) j")
        (auto simp: send_control_def bindE_def stateE_def returnE_def modifyE_def hm_get_insert)
    with Cons.IH [of t] Cons.prems(2) \<open>i \<in> set js\<close> show ?thesis by (simp add: bindE_def)
  qed
qed simp

text \<open>
  An interrupt that finds a shell whose task has ended, but which the loop has not yet
  removed, does not reach the remaining shells: the failed send is returned from the loop,
  and the kernel ends.
\<close>

theorem interrupt_finds_ended_shell:
  assumes "hm_get (shells s) i = Some h" and "h_task h \<noteq> Pending"
  shows "\<exists>s'. take_branch env Notified s = (Inl from_send, s') \<and> kernel_step env (None, s) (Some (Inl from_send), s')"
proof -
  have "i \<in> set (map fst (shells s))"
    using assms(1) map_of_SomeD [of "shells s" i h] by (force simp: hm_get_def)
  from send_control_each_ended [OF assms this, of Interrupt] obtain s' where
    "take_branch env Notified s = (Inl from_send, s')" by (auto simp: interrupt_shells_def bindE_def stateE_def)
  with kernel_step.branch [OF this] show ?thesis by auto
qed

theorem interrupt_finds_ended_shell_witness:
  "\<exists>s'. kernel_step demo_env (None, (kernel_new demo_world)\<lparr>shells := [(''a'', spawned\<lparr>h_task := Finished (Inr ())\<rparr>)]\<rparr>)
     (Some (Inl from_send), s')"
  using interrupt_finds_ended_shell [of "(kernel_new demo_world)\<lparr>shells := [(''a'', spawned\<lparr>h_task := Finished (Inr ())\<rparr>)]\<rparr>"
      "''a''" "spawned\<lparr>h_task := Finished (Inr ())\<rparr>" demo_env]
  by (auto simp: hm_get_def)

definition errors_of :: "'a result list \<Rightarrow> error list" where
  "errors_of rs = concat (map (\<lambda>r. case r of Inl e \<Rightarrow> [e] | Inr _ \<Rightarrow> []) rs)"

lemma errors_of_simps [simp]:
  "errors_of [] = []" "errors_of (Inl e # rs) = e # errors_of rs" "errors_of (Inr a # rs) = errors_of rs"
  by (simp_all add: errors_of_def)

lemma drain_failed:
  "drain_shells (Inl e) rs = (Inl e, map (\<lambda>e. Stderr (''kernel shutdown failed: '' @ show_error e)) (errors_of rs))"
proof (induction rs)
  case (Cons r rs)
  then show ?case by (cases r) simp_all
qed simp

text \<open>
  The kernel ends with the first error there was: that of its loop, or else that of the
  first shell that failed to stop. Every other error of a shell is printed, and none is
  lost.
\<close>

theorem shutdown_result:
  "drain_shells result rs =
     (case errors_of (result # rs) of
        [] \<Rightarrow> (Inr (), [])
      | e # es \<Rightarrow> (Inl e, map (\<lambda>e. Stderr (''kernel shutdown failed: '' @ show_error e)) es))"
proof (induction rs)
  case Nil
  show ?case by (cases result) auto
next
  case (Cons r rs)
  then show ?case by (cases result; cases r) (simp_all add: drain_failed)
qed

end
