(* ===== verification/Text.thy ===== *)
theory Text
  imports Json
begin

text \<open>
  The operations of Rust's standard library on text that the sources use beyond those of
  the prelude: UTF-8 validity and lossy decoding, trimming, and the parsing of integers
  and floats.
\<close>

section \<open>UTF-8\<close>

text \<open>
  \<open>String::from_utf8_lossy\<close>: every maximal prefix of a sequence that is not valid
  becomes the replacement character.
\<close>

definition byte_in :: "nat \<Rightarrow> nat \<Rightarrow> char \<Rightarrow> bool" where
  "byte_in a b c \<longleftrightarrow> a \<le> of_char c \<and> (of_char c :: nat) \<le> b"

definition continues :: "char \<Rightarrow> bool" where
  "continues = byte_in 0x80 0xBF"

text \<open>The second bytes that may follow a first byte, and the length of the sequence.\<close>

definition utf8_second :: "char \<Rightarrow> char \<Rightarrow> bool" where
  "utf8_second b c =
     (if byte_in 0xE0 0xE0 b then byte_in 0xA0 0xBF c
      else if byte_in 0xED 0xED b then byte_in 0x80 0x9F c
      else if byte_in 0xF0 0xF0 b then byte_in 0x90 0xBF c
      else if byte_in 0xF4 0xF4 b then byte_in 0x80 0x8F c
      else continues c)"

definition utf8_width :: "char \<Rightarrow> nat" where
  "utf8_width b =
     (if byte_in 0 0x7F b then 1 else if byte_in 0xC2 0xDF b then 2
      else if byte_in 0xE0 0xEF b then 3 else if byte_in 0xF0 0xF4 b then 4 else 0)"

text \<open>How many bytes of the sequence that starts here are as they should be.\<close>

definition utf8_valid :: "char \<Rightarrow> bytes \<Rightarrow> nat" where
  "utf8_valid b cs =
     (let w = utf8_width b in
      if w \<le> 1 then 1
      else case cs of
        [] \<Rightarrow> 1
      | c # ds \<Rightarrow> if utf8_second b c then 2 + length (takeWhile continues (take (w - 2) ds)) else 1)"

definition replacement :: bytes where
  "replacement = [char_of (0xEF::nat), char_of (0xBF::nat), char_of (0xBD::nat)]"

fun from_utf8_lossy :: "bytes \<Rightarrow> string" where
  "from_utf8_lossy [] = []"
| "from_utf8_lossy (b # cs) =
     (let n = utf8_valid b cs in
      (if n = utf8_width b then b # take (n - 1) cs else replacement) @ from_utf8_lossy (drop (n - 1) cs))"

text \<open>\<open>str::from_utf8\<close> succeeds.\<close>

fun is_utf8 :: "bytes \<Rightarrow> bool" where
  "is_utf8 [] = True"
| "is_utf8 (b # cs) =
     (let n = utf8_valid b cs in n = utf8_width b \<and> is_utf8 (drop (n - 1) cs))"

section \<open>Trimming\<close>

text \<open>The characters of the property \<open>White_Space\<close>, as UTF-8.\<close>

definition white_space :: "string list" where
  "white_space =
    [[CHR 0x09], [CHR 0x0A], [CHR 0x0B], [CHR 0x0C], [CHR 0x0D], [CHR 0x20], [CHR 0xC2, CHR 0x85],
     [CHR 0xC2, CHR 0xA0], [CHR 0xE1, CHR 0x9A, CHR 0x80], [CHR 0xE2, CHR 0x80, CHR 0x80],
     [CHR 0xE2, CHR 0x80, CHR 0x81], [CHR 0xE2, CHR 0x80, CHR 0x82], [CHR 0xE2, CHR 0x80, CHR 0x83],
     [CHR 0xE2, CHR 0x80, CHR 0x84], [CHR 0xE2, CHR 0x80, CHR 0x85], [CHR 0xE2, CHR 0x80, CHR 0x86],
     [CHR 0xE2, CHR 0x80, CHR 0x87], [CHR 0xE2, CHR 0x80, CHR 0x88], [CHR 0xE2, CHR 0x80, CHR 0x89],
     [CHR 0xE2, CHR 0x80, CHR 0x8A], [CHR 0xE2, CHR 0x80, CHR 0xA8], [CHR 0xE2, CHR 0x80, CHR 0xA9],
     [CHR 0xE2, CHR 0x80, CHR 0xAF], [CHR 0xE2, CHR 0x81, CHR 0x9F], [CHR 0xE3, CHR 0x80, CHR 0x80]]"

text \<open>Strips, from the front, the words of a list; \<open>n\<close> bounds how many.\<close>

fun strip_words :: "string list \<Rightarrow> nat \<Rightarrow> string \<Rightarrow> string" where
  "strip_words ws 0 s = s"
| "strip_words ws (Suc n) s =
     (case List.find (\<lambda>w. starts_with s w) ws of
        None \<Rightarrow> s
      | Some w \<Rightarrow> strip_words ws n (drop (length w) s))"

text \<open>\<open>str::trim\<close>: every word is at least one byte long, so the length is bound enough.\<close>

definition trim :: "string \<Rightarrow> string" where
  "trim s =
     (let front = strip_words white_space (length s) s
      in rev (strip_words (map rev white_space) (length front) (rev front)))"

section \<open>Numbers from text\<close>

definition digit_value :: "char \<Rightarrow> nat" where
  "digit_value c = of_char c - 48"

definition is_digit :: "char \<Rightarrow> bool" where
  "is_digit c \<longleftrightarrow> 48 \<le> (of_char c :: nat) \<and> (of_char c :: nat) \<le> 57"

definition digits_value :: "string \<Rightarrow> nat" where
  "digits_value ds = fold (\<lambda>d n. 10 * n + digit_value d) ds 0"

text \<open>\<open>str::parse::<usize>\<close>.\<close>

definition parse_usize :: "string \<Rightarrow> nat option" where
  "parse_usize s =
     (let ds = (case s of CHR ''+'' # r \<Rightarrow> r | _ \<Rightarrow> s) in
      if ds \<noteq> [] \<and> list_all is_digit ds \<and> digits_value ds < 2 ^ 64 then Some (digits_value ds) else None)"

text \<open>A float of 64 bits: the exact value of a finite one, and the others.\<close>

datatype f64_value = Finite rat | Infinite bool | NotANumber

definition half_even :: "rat \<Rightarrow> int" where
  "half_even x =
     (let f = \<lfloor>x\<rfloor>; r = x - of_int f in
      if r > 1 / 2 \<or> (r = 1 / 2 \<and> odd f) then f + 1 else f)"

definition power_of :: "rat \<Rightarrow> int \<Rightarrow> rat" where
  "power_of b e = (if 0 \<le> e then b ^ nat e else 1 / b ^ nat (- e))"

text \<open>The exponent of a positive value: the largest power of two below or at it.\<close>

definition binary_exponent :: "rat \<Rightarrow> int" where
  "binary_exponent q =
     (let (n, d) = quotient_of q; e = int (bit_length (nat n)) - int (bit_length (nat d)) in
      if power_of 2 e \<le> q then e else e - 1)"

text \<open>Rounding to 53 significant bits, and to multiples of the smallest positive value.\<close>

definition to_f64 :: "bool \<Rightarrow> rat \<Rightarrow> f64_value" where
  "to_f64 negative q =
     (if q = 0 then Finite 0
      else let u = power_of 2 (max (binary_exponent q - 52) (- 1074)); v = of_int (half_even (q / u)) * u in
        if v \<ge> 2 ^ 1024 then Infinite negative else Finite (if negative then - v else v))"

definition lower :: "char \<Rightarrow> char" where
  "lower c = (let n = of_char c :: nat in if 65 \<le> n \<and> n \<le> 90 then char_of (n + 32) else c)"

text \<open>The digits after the point, and the exponent: both may be missing.\<close>

definition split_fraction :: "string \<Rightarrow> string \<times> string" where
  "split_fraction s =
     (case s of CHR ''.'' # r \<Rightarrow> (takeWhile is_digit r, dropWhile is_digit r) | _ \<Rightarrow> ([], s))"

definition parse_exponent :: "string \<Rightarrow> int option" where
  "parse_exponent s =
     (case s of
        [] \<Rightarrow> Some 0
      | c # r \<Rightarrow>
          if c = CHR ''e'' \<or> c = CHR ''E'' then
            (let (negative, ds) = (case r of
                CHR ''-'' # t \<Rightarrow> (True, t) | CHR ''+'' # t \<Rightarrow> (False, t) | _ \<Rightarrow> (False, r)) in
             if ds \<noteq> [] \<and> list_all is_digit ds
             then Some (if negative then - int (digits_value ds) else int (digits_value ds)) else None)
          else None)"

definition parse_unsigned :: "bool \<Rightarrow> string \<Rightarrow> f64_value option" where
  "parse_unsigned negative s =
     (let word = map lower s; whole = takeWhile is_digit s; (fraction, rest) = split_fraction (dropWhile is_digit s) in
      if word = ''inf'' \<or> word = ''infinity'' then Some (Infinite negative)
      else if word = ''nan'' then Some NotANumber
      else if whole = [] \<and> fraction = [] then None
      else map_option (\<lambda>e. to_f64 negative
             (of_nat (digits_value (whole @ fraction)) * power_of 10 (e - int (length fraction)))) (parse_exponent rest))"

text \<open>\<open>str::parse::<f64>\<close>.\<close>

definition parse_f64 :: "string \<Rightarrow> f64_value option" where
  "parse_f64 s =
     (case s of
        CHR ''-'' # r \<Rightarrow> parse_unsigned True r
      | CHR ''+'' # r \<Rightarrow> parse_unsigned False r
      | _ \<Rightarrow> parse_unsigned False s)"

text \<open>The message of the error of \<open>parse::<usize>\<close>.\<close>

definition parse_int_error :: "string \<Rightarrow> string" where
  "parse_int_error s =
     (let ds = (case s of CHR ''+'' # r \<Rightarrow> r | _ \<Rightarrow> s) in
      if s = [] then ''cannot parse integer from empty string''
      else if ds = [] \<or> \<not> list_all is_digit ds then ''invalid digit found in string''
      else ''number too large to fit in target type'')"

section \<open>Lemmas\<close>

lemma parse_usize_bound: "parse_usize s = Some n \<Longrightarrow> n < 2 ^ 64"
  by (auto simp: parse_usize_def Let_def split: if_splits)

lemma half_even_bounds: "x - 1 / 2 \<le> of_int (half_even x)" "of_int (half_even x) \<le> x + 1 / 2"
proof -
  have "of_int \<lfloor>x\<rfloor> \<le> x" "x < of_int \<lfloor>x\<rfloor> + 1" by linarith+
  then show "x - 1 / 2 \<le> of_int (half_even x)" "of_int (half_even x) \<le> x + 1 / 2"
    unfolding half_even_def Let_def by (auto split: if_split) linarith+
qed

lemma half_even_le: "x \<le> of_int n \<Longrightarrow> half_even x \<le> n"
proof -
  assume "x \<le> of_int n"
  then have "of_int (half_even x) < (of_int (n + 1) :: rat)" using half_even_bounds(2) [of x] by simp
  then show ?thesis by linarith
qed

lemma half_even_of_int [simp]: "half_even (of_int n) = n"
  by (simp add: half_even_def)

lemma digit_char: "d < 10 \<Longrightarrow> is_digit (digit_char d) \<and> digit_value (digit_char d) = d"
  by (simp add: is_digit_def digit_char_def digit_value_def)

lemma digits_value_snoc: "digits_value (ds @ [d]) = 10 * digits_value ds + digit_value d"
  by (simp add: digits_value_def)

lemma show_nat_digits: "show_nat n \<noteq> [] \<and> list_all is_digit (show_nat n) \<and> digits_value (show_nat n) = n"
proof (induction n rule: show_nat.induct)
  case (1 n)
  show ?case
  proof (cases "n < 10")
    case True
    then show ?thesis by (simp add: show_nat.simps [of n] digit_char digits_value_def)
  next
    case False
    with 1 show ?thesis by (simp add: show_nat.simps [of n] digit_char digits_value_snoc)
  qed
qed

lemma parse_usize_show: "n < 2 ^ 64 \<Longrightarrow> parse_usize (show_nat n) = Some n"
proof -
  assume n: "n < 2 ^ 64"
  obtain d ds where ds: "show_nat n = d # ds" using show_nat_digits [of n] by (cases "show_nat n") auto
  with show_nat_digits [of n] have "is_digit d" by simp
  then have "d \<noteq> CHR ''+''" by (auto simp: is_digit_def)
  then have "(case show_nat n of CHR ''+'' # r \<Rightarrow> r | _ \<Rightarrow> show_nat n) = show_nat n"
    unfolding ds by (simp split: char.split bool.split)
  with n show_nat_digits [of n] show ?thesis by (simp add: parse_usize_def Let_def)
qed

end
