(* ===== verification/Iopub.thy ===== *)
theory Iopub
  imports Effects Text
begin

text \<open>
  The publication of messages to the IOPub subscribers (\<open>Iopub\<close> in
  \<open>src/src/transport.rs\<close>): the loop of \<open>publish\<close> over the subscribers'
  channels, the task that serves one subscriber, and the two together with connections that
  come and go.

  A subscriber is named by the number of its connection. Its channel holds what
  \<open>publish\<close> sent and the task has not yet taken, and what the task wrote to the
  connection is recorded. The ZMTP crate is a parameter: what it delivers to the task and
  whether it takes what the task writes are inputs of the step.
\<close>

section \<open>State\<close>

type_synonym frames = "bytes list"

text \<open>\<open>zmtpmini::Incoming\<close>.\<close>

datatype incoming = Message frames | Subscribe bytes | Cancel bytes | Ping bytes

datatype peer_write = Forward frames | Welcome frames | Pong bytes

record subscriber =
  sub_queue :: "frames list"
  sub_open :: bool
  sub_written :: "peer_write list"

text \<open>
  \<open>io_current\<close> is the publication that holds the lock, with the index its loop has
  reached. \<open>io_published\<close> and \<open>io_since\<close> record, for the statements, what was
  published and how much of it before each connection.
\<close>

record iopub =
  io_session :: session
  io_capacity :: nat
  io_peers :: "nat list"
  io_subs :: "nat \<Rightarrow> subscriber"
  io_next :: nat
  io_current :: "(frames \<times> nat) option"
  io_published :: "frames list"
  io_since :: "nat \<Rightarrow> nat"

definition subscriber_new :: subscriber where
  "subscriber_new = \<lparr>sub_queue = [], sub_open = True, sub_written = []\<rparr>"

definition iopub_new :: "session \<Rightarrow> nat \<Rightarrow> iopub" where
  "iopub_new s capacity = \<lparr>io_session = s, io_capacity = capacity, io_peers = [],
     io_subs = (\<lambda>_. subscriber_new), io_next = 0, io_current = None, io_published = [], io_since = (\<lambda>_. 0)\<rparr>"

section \<open>Publishing\<close>

text \<open>\<open>Vec::swap_remove\<close>, for an index in range.\<close>

definition swap_remove :: "nat \<Rightarrow> 'a list \<Rightarrow> 'a list" where
  "swap_remove i xs = (butlast xs)[i := last xs]"

text \<open>The part of \<open>publish\<close> before its loop.\<close>

definition publish_begin :: "crates \<Rightarrow> Wire.message \<Rightarrow> iopub \<Rightarrow> unit result \<times> iopub" where
  "publish_begin c m s =
     (case wire_result (encode c (io_session s) m) of
        Inl e \<Rightarrow> (Inl e, s)
      | Inr frames \<Rightarrow> (Inr (), s\<lparr>io_current := Some (frames, 0), io_published := io_published s @ [frames]\<rparr>))"

text \<open>
  One turn of the loop, or \<open>None\<close> where there is none: no publication runs, or its
  send waits for room in a channel.
\<close>

definition sub_push :: "frames \<Rightarrow> subscriber \<Rightarrow> subscriber" where
  "sub_push f b = b\<lparr>sub_queue := sub_queue b @ [f]\<rparr>"

definition publish_turn :: "iopub \<Rightarrow> iopub option" where
  "publish_turn s =
     (case io_current s of
        None \<Rightarrow> None
      | Some (frames, i) \<Rightarrow>
          if i < length (io_peers s) then
            (let p = io_peers s ! i; b = io_subs s p in
             if \<not> sub_open b then Some (s\<lparr>io_peers := swap_remove i (io_peers s)\<rparr>)
             else if length (sub_queue b) < io_capacity s
             then Some (s\<lparr>io_subs := (io_subs s)(p := sub_push frames b), io_current := Some (frames, i + 1)\<rparr>)
             else None)
          else Some (s\<lparr>io_current := None\<rparr>))"

definition turns_left :: "iopub \<Rightarrow> nat" where
  "turns_left s = (case io_current s of None \<Rightarrow> 0 | Some (frames, i) \<Rightarrow> Suc (length (io_peers s) - i))"

lemma turns_left_decreases: "publish_turn s = Some s' \<Longrightarrow> turns_left s' < turns_left s"
  by (auto simp: publish_turn_def turns_left_def swap_remove_def Let_def split: option.splits if_splits)

text \<open>The loop, as far as it gets while nobody else moves.\<close>

function publish_loop :: "iopub \<Rightarrow> iopub" where
  "publish_loop s = (case publish_turn s of None \<Rightarrow> s | Some s' \<Rightarrow> publish_loop s')"
  by pat_completeness auto
termination
  by (relation "measure turns_left") (auto dest: turns_left_decreases)

declare publish_loop.simps [simp del]

section \<open>Serving a subscriber\<close>

definition welcome_message :: "crates \<Rightarrow> session \<Rightarrow> nat \<Rightarrow> bytes \<Rightarrow> Wire.message" where
  "welcome_message c s n topic =
     (let m = session_message c s n ''iopub_welcome'' (JObj [(''subscription'', JStr (from_utf8_lossy topic))]) None in
      if topic \<noteq> [] then m\<lparr>identities := identities m @ [topic]\<rparr> else m)"

fun peer_reaction :: "crates \<Rightarrow> session \<Rightarrow> nat \<Rightarrow> incoming \<Rightarrow> peer_write option result" where
  "peer_reaction c s n (Subscribe topic) =
     (case wire_result (encode c s (welcome_message c s n topic)) of Inl e \<Rightarrow> Inl e | Inr f \<Rightarrow> Inr (Some (Welcome f)))"
| "peer_reaction c s n (Cancel topic) = Inr None"
| "peer_reaction c s n (Ping context) = Inr (Some (Pong context))"
| "peer_reaction c s n (Message f) = Inl (error_new Protocol ''unexpected message on IOPub peer'')"

definition peer_write_to :: "peer_write \<Rightarrow> (zmtp_error + unit) \<Rightarrow> subscriber \<Rightarrow> subscriber \<times> unit result option" where
  "peer_write_to w r b =
     (case r of
        Inl z \<Rightarrow> (b\<lparr>sub_open := False\<rparr>, Some (Inl (from_zmtp z)))
      | Inr _ \<Rightarrow> (b\<lparr>sub_written := sub_written b @ [w]\<rparr>, None))"

text \<open>
  One turn of the task: it received something from the connection, or it takes from its
  channel, which is finished once it is empty and \<open>publish\<close> dropped its sender
  (\<open>dropped\<close>). \<open>w\<close> is what the connection makes of a write, and the result is
  the task's once it ends.
\<close>

datatype peer_input = FromClient "zmtp_error + incoming" | FromChannel

fun peer_turn :: "crates \<Rightarrow> session \<Rightarrow> nat \<Rightarrow> bool \<Rightarrow> peer_input \<Rightarrow> (zmtp_error + unit) \<Rightarrow> subscriber \<Rightarrow>
    subscriber \<times> unit result option" where
  "peer_turn c s n dropped (FromClient (Inl z)) w b = (b\<lparr>sub_open := False\<rparr>, Some (Inl (from_zmtp z)))"
| "peer_turn c s n dropped (FromClient (Inr ev)) w b =
     (case peer_reaction c s n ev of
        Inl e \<Rightarrow> (b\<lparr>sub_open := False\<rparr>, Some (Inl e))
      | Inr None \<Rightarrow> (b, None)
      | Inr (Some x) \<Rightarrow> peer_write_to x w b)"
| "peer_turn c s n dropped FromChannel w b =
     (case sub_queue b of
        [] \<Rightarrow> if dropped then (b\<lparr>sub_open := False\<rparr>, Some (Inr ())) else (b, None)
      | f # fs \<Rightarrow> peer_write_to (Forward f) w (b\<lparr>sub_queue := fs\<rparr>))"

definition connect :: "iopub \<Rightarrow> iopub" where
  "connect s = s\<lparr>io_peers := io_peers s @ [io_next s], io_subs := (io_subs s)(io_next s := subscriber_new),
     io_next := Suc (io_next s), io_since := (io_since s)(io_next s := length (io_published s))\<rparr>"

section \<open>Publications among connections\<close>

text \<open>
  The steps of the whole: a publication begins or takes a turn, a connection is registered
  (both wait for the lock that a running publication holds), or the task of an open
  connection takes a turn.
\<close>

inductive iopub_step :: "crates \<Rightarrow> iopub \<Rightarrow> iopub \<Rightarrow> bool" for c :: crates where
  begin_publish: "io_current s = None \<Longrightarrow> publish_begin c m s = (r, s') \<Longrightarrow> iopub_step c s s'"
| turn: "publish_turn s = Some s' \<Longrightarrow> iopub_step c s s'"
| accept: "io_current s = None \<Longrightarrow> iopub_step c s (connect s)"
| serve: "p < io_next s \<Longrightarrow> sub_open (io_subs s p) \<Longrightarrow>
    peer_turn c (io_session s) n (p \<notin> set (io_peers s)) x w (io_subs s p) = (b, r) \<Longrightarrow>
    iopub_step c s (s\<lparr>io_subs := (io_subs s)(p := b)\<rparr>)"

definition iopub_start :: "session \<Rightarrow> nat \<Rightarrow> iopub \<Rightarrow> bool" where
  "iopub_start s capacity x \<longleftrightarrow> x = iopub_new s capacity"

section \<open>Lemmas\<close>

lemma length_swap_remove [simp]: "length (swap_remove i xs) = length xs - 1"
  by (simp add: swap_remove_def)

lemma nth_swap_remove:
  "j < length xs - 1 \<Longrightarrow> swap_remove i xs ! j = (if j = i then last xs else xs ! j)"
  by (auto simp: swap_remove_def nth_list_update nth_butlast)

lemma mset_swap_remove:
  assumes "i < length xs"
  shows "add_mset (xs ! i) (mset (swap_remove i xs)) = mset xs"
proof (cases xs rule: rev_cases)
  case (snoc ys y)
  show ?thesis
  proof (cases "i < length ys")
    case True
    then have "add_mset (ys ! i) (mset (ys[i := y])) = add_mset y (mset ys)"
      by (simp add: mset_update)
    with True snoc show ?thesis by (simp add: swap_remove_def nth_append)
  next
    case False
    with assms snoc have "i = length ys" by simp
    with snoc show ?thesis by (simp add: swap_remove_def list_update_beyond)
  qed
qed (use assms in simp)

lemma set_swap_remove: "i < length xs \<Longrightarrow> distinct xs \<Longrightarrow> set (swap_remove i xs) = set xs - {xs ! i}"
  and distinct_swap_remove: "i < length xs \<Longrightarrow> distinct xs \<Longrightarrow> distinct (swap_remove i xs)"
proof -
  assume i: "i < length xs" and "distinct xs"
  then have "count (mset (swap_remove i xs)) x = (if x = xs ! i then 0 else count (mset xs) x)" for x
    using mset_swap_remove [OF i] by (auto simp: distinct_count_atmost_1 dest!: arg_cong [of _ _ "\<lambda>m. count m x"])
  moreover from \<open>distinct xs\<close> have "count (mset xs) x = (if x \<in> set xs then 1 else 0)" for x
    by (simp add: distinct_count_atmost_1)
  ultimately have *: "count (mset (swap_remove i xs)) x = (if x \<in> set xs - {xs ! i} then 1 else 0)" for x
    by simp
  then show set: "set (swap_remove i xs) = set xs - {xs ! i}"
    by (metis (no_types, lifting) count_eq_zero_iff set_mset_mset subsetI subset_antisym zero_neq_one)
  show "distinct (swap_remove i xs)"
    using * set by (simp add: distinct_count_atmost_1)
qed

text \<open>What a subscriber was sent of the publications, and what it is due.\<close>

definition forwarded :: "subscriber \<Rightarrow> frames list" where
  "forwarded b = concat (map (\<lambda>w. case w of Forward f \<Rightarrow> [f] | _ \<Rightarrow> []) (sub_written b))"

definition due :: "iopub \<Rightarrow> nat \<Rightarrow> frames list" where
  "due s j =
     (let sent = (case io_current s of Some (f, i) \<Rightarrow> if i \<le> j then butlast (io_published s) else io_published s
                  | None \<Rightarrow> io_published s)
      in drop (io_since s (io_peers s ! j)) sent)"

definition iopub_ok :: "iopub \<Rightarrow> bool" where
  "iopub_ok s \<longleftrightarrow>
     distinct (io_peers s) \<and> (\<forall>p\<in>set (io_peers s). p < io_next s) \<and>
     (\<forall>p<io_next s. sub_open (io_subs s p) \<longrightarrow> p \<in> set (io_peers s)) \<and>
     (\<forall>p<io_next s. length (sub_queue (io_subs s p)) \<le> io_capacity s) \<and>
     (\<forall>f i. io_current s = Some (f, i) \<longrightarrow> i \<le> length (io_peers s) \<and> (\<exists>fs. io_published s = fs @ [f])) \<and>
     (\<forall>p\<in>set (io_peers s). io_since s p + (if io_current s = None then 0 else 1) \<le> length (io_published s)) \<and>
     (\<forall>j<length (io_peers s). sub_open (io_subs s (io_peers s ! j)) \<longrightarrow>
        forwarded (io_subs s (io_peers s ! j)) @ sub_queue (io_subs s (io_peers s ! j)) = due s j)"

lemma forwarded_simps [simp]:
  "forwarded (b\<lparr>sub_queue := q\<rparr>) = forwarded b" "forwarded (b\<lparr>sub_open := x\<rparr>) = forwarded b"
  "forwarded (sub_push f b) = forwarded b" "forwarded subscriber_new = []"
  "forwarded (b\<lparr>sub_written := sub_written b @ [w]\<rparr>) = forwarded b @ (case w of Forward f \<Rightarrow> [f] | _ \<Rightarrow> [])"
  "forwarded (b\<lparr>sub_queue := q, sub_written := sub_written b @ [w]\<rparr>) = forwarded b @ (case w of Forward f \<Rightarrow> [f] | _ \<Rightarrow> [])"
  by (simp_all add: forwarded_def sub_push_def subscriber_new_def)

lemma iopub_ok_start: "iopub_ok (iopub_new s capacity)"
  by (simp add: iopub_ok_def iopub_new_def)

lemma iopub_ok_begin:
  assumes "iopub_ok s" and "io_current s = None" and "publish_begin c m s = (r, s')"
  shows "iopub_ok s'"
  using assms by (auto simp: iopub_ok_def publish_begin_def due_def Let_def split: sum.splits)

lemma iopub_ok_connect:
  assumes "iopub_ok s" and "io_current s = None"
  shows "iopub_ok (connect s)"
  using assms by (auto simp: iopub_ok_def connect_def due_def Let_def nth_append subscriber_new_def forwarded_def less_Suc_eq)

lemma iopub_ok_remove:
  assumes ok: "iopub_ok s" and cur: "io_current s = Some (f, i)" and i: "i < length (io_peers s)"
    and shut: "\<not> sub_open (io_subs s (io_peers s ! i))"
  shows "iopub_ok (s\<lparr>io_peers := swap_remove i (io_peers s)\<rparr>)"
proof -
  let ?ps = "io_peers s" and ?qs = "swap_remove i (io_peers s)" and ?s = "s\<lparr>io_peers := swap_remove i (io_peers s)\<rparr>"
  have set: "set ?qs = set ?ps - {?ps ! i}" and distinct: "distinct ?qs"
    using ok i by (simp_all add: iopub_ok_def set_swap_remove distinct_swap_remove)
  have "\<exists>k. i \<le> k \<and> k < length ?ps \<and> ?qs ! j = ?ps ! k" if "i \<le> j" "j < length ?qs" for j
  proof (cases "j = i")
    case True
    have "?ps \<noteq> []" using i by auto
    with True that i show ?thesis by (intro exI [of _ "length ?ps - 1"]) (auto simp: nth_swap_remove last_conv_nth)
  next
    case False
    with that show ?thesis by (intro exI [of _ j]) (auto simp: nth_swap_remove)
  qed
  then have late: "\<exists>k. i \<le> k \<and> k < length ?ps \<and> ?qs ! j = ?ps ! k \<and> due ?s j = due s k" if "i \<le> j" "j < length ?qs" for j
    using that cur by (force simp: due_def)
  have early: "?qs ! j = ?ps ! j \<and> due ?s j = due s j" if "j < i" "j < length ?qs" for j
    using that cur by (simp add: due_def nth_swap_remove)
  have "forwarded (io_subs s (?qs ! j)) @ sub_queue (io_subs s (?qs ! j)) = due ?s j"
    if "j < length ?qs" "sub_open (io_subs s (?qs ! j))" for j
  proof (cases "i \<le> j")
    case True
    from late [OF True that(1)] ok that(2) show ?thesis by (force simp: iopub_ok_def)
  next
    case False
    with early [of j] that ok i show ?thesis by (simp add: iopub_ok_def)
  qed
  moreover have "i \<le> length ?qs" using i by simp
  ultimately show ?thesis using ok cur shut set distinct by (auto simp: iopub_ok_def)
qed

lemma iopub_ok_send:
  assumes ok: "iopub_ok s" and cur: "io_current s = Some (f, i)" and i: "i < length (io_peers s)"
    and room: "length (sub_queue (io_subs s (io_peers s ! i))) < io_capacity s"
  shows "iopub_ok (s\<lparr>io_subs := (io_subs s)(io_peers s ! i := sub_push f (io_subs s (io_peers s ! i))),
    io_current := Some (f, i + 1)\<rparr>)" (is "iopub_ok ?s")
proof -
  let ?ps = "io_peers s" and ?p = "io_peers s ! i"
  obtain fs where fs: "io_published s = fs @ [f]" using ok cur by (auto simp: iopub_ok_def)
  have p: "?p < io_next s" "io_since s ?p \<le> length fs"
    using ok i cur fs nth_mem [OF i] by (auto simp: iopub_ok_def)
  have "forwarded (io_subs ?s (?ps ! j)) @ sub_queue (io_subs ?s (?ps ! j)) = due ?s j"
    if j: "j < length ?ps" and "sub_open (io_subs ?s (?ps ! j))" for j
  proof (cases "j = i")
    case True
    with ok i that(2) have "forwarded (io_subs s ?p) @ sub_queue (io_subs s ?p) = due s i"
      by (auto simp: iopub_ok_def sub_push_def)
    also have "due s i = drop (io_since s ?p) fs" using cur fs by (simp add: due_def)
    finally show ?thesis using True cur fs p(2) by (simp add: due_def sub_push_def flip: append_assoc)
  next
    case False
    then have "?ps ! j \<noteq> ?p" using ok i j by (auto simp: iopub_ok_def nth_eq_iff_index_eq)
    moreover have "due ?s j = due s j" using False cur by (simp add: due_def Suc_le_eq)
    ultimately show ?thesis using ok j that(2) by (auto simp: iopub_ok_def)
  qed
  moreover have "length (sub_queue (io_subs ?s q)) \<le> io_capacity s" if "q < io_next s" for q
    using ok that room by (auto simp: iopub_ok_def sub_push_def)
  ultimately show ?thesis using ok cur i by (auto simp: iopub_ok_def sub_push_def)
qed

lemma iopub_ok_turn:
  assumes ok: "iopub_ok s" and "publish_turn s = Some s'"
  shows "iopub_ok s'"
proof -
  obtain f i where cur: "io_current s = Some (f, i)" using assms(2) by (auto simp: publish_turn_def split: option.splits)
  show ?thesis
  proof (cases "i < length (io_peers s)")
    case True
    with assms(2) cur iopub_ok_remove [OF ok cur True] iopub_ok_send [OF ok cur True] show ?thesis
      by (auto simp: publish_turn_def Let_def split: if_splits)
  next
    case False
    with assms(2) cur have "s' = s\<lparr>io_current := None\<rparr>" by (simp add: publish_turn_def)
    moreover have "due (s\<lparr>io_current := None\<rparr>) j = due s j" if "j < length (io_peers s)" for j
      using that False cur by (simp add: due_def)
    ultimately show ?thesis using ok cur by (auto simp: iopub_ok_def)
  qed
qed

text \<open>A turn of a subscriber's task takes from the front of its channel what it writes.\<close>

lemma peer_turn_spec:
  assumes "peer_turn c s n d x w b = (b', r)"
  shows "length (sub_queue b') \<le> length (sub_queue b)" and "sub_open b' \<Longrightarrow> sub_open b"
    and "sub_open b' \<Longrightarrow> forwarded b' @ sub_queue b' = forwarded b @ sub_queue b"
  using assms
  by (cases "(c, s, n, d, x, w, b)" rule: peer_turn.cases;
      auto simp: peer_write_to_def split: sum.splits option.splits list.splits if_splits incoming.splits elim!: peer_reaction.elims)+

lemma iopub_ok_serve:
  assumes ok: "iopub_ok s" and p: "p < io_next s" "sub_open (io_subs s p)"
    and turn: "peer_turn c z n d x w (io_subs s p) = (b, r)"
  shows "iopub_ok (s\<lparr>io_subs := (io_subs s)(p := b)\<rparr>)"
proof -
  have due: "due (s\<lparr>io_subs := (io_subs s)(p := b)\<rparr>) = due s"
    by (auto simp: due_def fun_eq_iff split: option.splits)
  have "length (sub_queue b) \<le> io_capacity s"
    using ok p(1) peer_turn_spec(1) [OF turn] by (fastforce simp: iopub_ok_def)
  with ok p due peer_turn_spec(2,3) [OF turn] show ?thesis by (auto simp: iopub_ok_def)
qed

interpretation io: inductive_invariant "iopub_start z capacity" "iopub_step c" iopub_ok
proof
  show "iopub_ok s" if "iopub_start z capacity s" for s
    using that by (simp add: iopub_start_def iopub_ok_start)
next
  fix s t assume "iopub_ok s" and "iopub_step c s t"
  from this(2,1) show "iopub_ok t"
    by cases (auto intro: iopub_ok_begin iopub_ok_turn iopub_ok_connect iopub_ok_serve)
qed

lemma publish_turn_fields:
  "publish_turn s = Some s' \<Longrightarrow> io_capacity s' = io_capacity s \<and> io_published s' = io_published s"
  by (auto simp: publish_turn_def Let_def split: option.splits if_splits)

lemma publish_loop_step: "publish_turn s = Some s' \<Longrightarrow> publish_loop s = publish_loop s'"
  by (subst publish_loop.simps) simp

lemma mset_drop_swap_remove:
  assumes "i < length xs"
  shows "take i (swap_remove i xs) = take i xs" and "mset (drop i (swap_remove i xs)) = mset (drop (Suc i) xs)"
proof -
  show take: "take i (swap_remove i xs) = take i xs"
    using assms by (simp add: list_eq_iff_nth_eq nth_swap_remove)
  have "add_mset (xs ! i) (mset (take i xs) + mset (drop i (swap_remove i xs))) = mset xs"
    using mset_swap_remove [OF assms] take by (metis append_take_drop_id mset_append)
  also have "mset xs = mset (take i xs) + add_mset (xs ! i) (mset (drop (Suc i) xs))"
    using assms by (metis append_take_drop_id Cons_nth_drop_Suc mset.simps(2) mset_append)
  finally show "mset (drop i (swap_remove i xs)) = mset (drop (Suc i) xs)" by simp
qed

lemma publish_loop_spec:
  assumes "io_current s = Some (f, i)" and "i \<le> length (io_peers s)" and "distinct (io_peers s)"
    and "\<forall>p\<in>set (drop i (io_peers s)). sub_open (io_subs s p) \<longrightarrow> length (sub_queue (io_subs s p)) < io_capacity s"
  shows "io_current (publish_loop s) = None \<and>
    mset (io_peers (publish_loop s)) =
      mset (take i (io_peers s)) + mset (filter (\<lambda>p. sub_open (io_subs s p)) (drop i (io_peers s))) \<and>
    io_subs (publish_loop s) = (\<lambda>p. if p \<in> set (drop i (io_peers s)) \<and> sub_open (io_subs s p)
      then sub_push f (io_subs s p) else io_subs s p)"
  using assms
proof (induction s arbitrary: i rule: publish_loop.induct)
  case (1 s)
  let ?ps = "io_peers s" and ?p = "io_peers s ! i" and ?open = "\<lambda>p. sub_open (io_subs s p)"
  show ?case
  proof (cases "i < length ?ps")
    case False
    then have turn: "publish_turn s = Some (s\<lparr>io_current := None\<rparr>)"
      using "1.prems"(1) by (simp add: publish_turn_def)
    have "publish_turn (s\<lparr>io_current := None\<rparr>) = None" by (simp add: publish_turn_def)
    with publish_loop_step [OF turn] have "publish_loop s = s\<lparr>io_current := None\<rparr>"
      by (simp add: publish_loop.simps [of "s\<lparr>io_current := None\<rparr>"])
    with False show ?thesis by simp
  next
    case True
    note drop = Cons_nth_drop_Suc [OF True, symmetric]
    show ?thesis
    proof (cases "?open ?p")
      case False
      let ?t = "s\<lparr>io_peers := swap_remove i ?ps\<rparr>"
      have turn: "publish_turn s = Some ?t" using "1.prems"(1) True False by (simp add: publish_turn_def)
      note m = mset_drop_swap_remove [OF True]
      then have sets: "set (drop i (swap_remove i ?ps)) = set (drop (Suc i) ?ps)" by (metis set_mset_mset)
      have "mset (filter ?open (drop i (swap_remove i ?ps))) = mset (filter ?open (drop i ?ps))"
        using m(2) False by (simp add: drop)
      moreover have "p \<in> set (drop i ?ps) \<and> ?open p \<longleftrightarrow> p \<in> set (drop (Suc i) ?ps) \<and> ?open p" for p
        using False by (auto simp: drop)
      ultimately show ?thesis
        using "1.IH" [OF turn, of i] "1.prems" True sets m(1) distinct_swap_remove [OF True]
        unfolding publish_loop_step [OF turn] by (auto simp: drop fun_eq_iff)
    next
      case up: True
      let ?t = "s\<lparr>io_subs := (io_subs s)(?p := sub_push f (io_subs s ?p)), io_current := Some (f, Suc i)\<rparr>"
      have turn: "publish_turn s = Some ?t" using "1.prems"(1,4) True up by (simp add: publish_turn_def drop Let_def)
      have fresh: "?p \<notin> set (drop (Suc i) ?ps)"
        using "1.prems"(3) True by (metis append_take_drop_id distinct.simps(2) distinct_append drop)
      have "mset (filter (\<lambda>p. sub_open (io_subs ?t p)) (drop (Suc i) ?ps)) = mset (filter ?open (drop (Suc i) ?ps))"
        using fresh by (intro arg_cong [of _ _ mset] filter_cong) auto
      moreover have "mset (take (Suc i) ?ps) = add_mset ?p (mset (take i ?ps))"
        using True by (simp add: take_Suc_conv_app_nth)
      ultimately show ?thesis
        using "1.IH" [OF turn, of "Suc i"] "1.prems" True up fresh
        unfolding publish_loop_step [OF turn] by (auto simp: drop fun_eq_iff)
    qed
  qed
qed

lemma publish_loop_reachable:
  "reachable start (iopub_step c) s \<Longrightarrow> reachable start (iopub_step c) (publish_loop s)"
proof (induction s rule: publish_loop.induct)
  case (1 s)
  show ?case
  proof (cases "publish_turn s")
    case (Some t)
    with 1 show ?thesis unfolding publish_loop_step [OF Some] by (blast intro: reach_step iopub_step.turn)
  qed (simp add: publish_loop.simps [of s] 1)
qed

text \<open>Whether a publication fails is a matter of the message alone, as \<open>Effects.publish\<close> has it.\<close>

lemma publish_result:
  "io_session s = ks_session ks \<Longrightarrow> fst (publish_begin (ks_crates ks) m s) = fst (publish ks m w)"
  by (simp add: publish_begin_def publish_def bindE_def liftE_def effectE_def split: sum.split)

section \<open>Properties\<close>


definition demo_iopub :: iopub where
  "demo_iopub = connect (connect (iopub_new demo_session 2))"

definition demo_note :: Wire.message where
  "demo_note = message (demo_request ''status'' JNull [] 1)"

definition demo_published :: iopub where
  "demo_published = publish_loop (snd (publish_begin demo_crates demo_note demo_iopub))"

lemma demo_iopub_reachable: "reachable (iopub_start demo_session 2) (iopub_step demo_crates) demo_iopub"
proof -
  have "reachable (iopub_start demo_session 2) (iopub_step demo_crates) (iopub_new demo_session 2)"
    by (rule reach_start) (simp add: iopub_start_def)
  then have "reachable (iopub_start demo_session 2) (iopub_step demo_crates) (connect (iopub_new demo_session 2))"
    by (rule reach_step) (rule iopub_step.accept, simp add: iopub_new_def)
  then show ?thesis
    unfolding demo_iopub_def by (rule reach_step) (rule iopub_step.accept, simp add: connect_def iopub_new_def)
qed

lemma demo_iopub_fields:
  "io_current demo_iopub = None" "io_next demo_iopub = 2" "io_capacity demo_iopub = 2"
  "io_subs demo_iopub p = subscriber_new"
  by (simp_all add: demo_iopub_def connect_def iopub_new_def)

lemma demo_begin: "publish_begin demo_crates demo_note demo_iopub =
    (Inr (), snd (publish_begin demo_crates demo_note demo_iopub))"
proof -
  have "fst (publish_begin demo_crates demo_note demo_iopub) = Inr ()" by code_simp
  then show ?thesis by (metis prod.collapse)
qed


text \<open>
  C22. A subscriber sees every publication since it connected, in order. While no
  publication is under way, what was written to an open connection followed by what waits
  in its channel is exactly the sequence of messages published since it connected, each
  once; and the channel never holds more than its capacity.
\<close>

theorem subscriber_sees_all:
  assumes "reachable (iopub_start z capacity) (iopub_step c) s" and "io_current s = None"
    and "p < io_next s" and "sub_open (io_subs s p)"
  shows "forwarded (io_subs s p) @ sub_queue (io_subs s p) = drop (io_since s p) (io_published s) \<and>
    length (sub_queue (io_subs s p)) \<le> io_capacity s"
proof -
  have ok: "iopub_ok s" using io.inv_reachable [OF assms(1)] .
  then obtain j where "j < length (io_peers s)" "io_peers s ! j = p"
    using assms(3,4) by (auto simp: iopub_ok_def in_set_conv_nth)
  with ok assms(2-4) show ?thesis by (auto simp: iopub_ok_def due_def)
qed

theorem subscriber_sees_all_witness:
  "forwarded (io_subs demo_published 1) @ sub_queue (io_subs demo_published 1) = io_published demo_published \<and>
   length (io_published demo_published) = 1"
proof
  have "reachable (iopub_start demo_session 2) (iopub_step demo_crates) demo_published"
    unfolding demo_published_def
    by (rule publish_loop_reachable, rule reach_step [OF demo_iopub_reachable],
        rule iopub_step.begin_publish [OF demo_iopub_fields(1) demo_begin])
  moreover have "io_current demo_published = None" "io_since demo_published 1 = 0" "1 < io_next demo_published"
    "sub_open (io_subs demo_published 1)" by code_simp+
  ultimately show "forwarded (io_subs demo_published 1) @ sub_queue (io_subs demo_published 1) = io_published demo_published"
    using subscriber_sees_all [of demo_session 2 demo_crates demo_published 1] by simp
  show "length (io_published demo_published) = 1" by code_simp
qed

end
