(* ===== verification/Router.thy ===== *)
theory Router
  imports Iopub
begin

text \<open>
  The router channels (\<open>serve_router\<close>, \<open>router_peer\<close>, \<open>ReplySink\<close> and
  \<open>RouterPeers\<close> in \<open>src/src/transport.rs\<close>) and the heartbeat: connections that
  read messages into the kernel and write its replies, the map of the peers by identity,
  and the loops that accept connections.

  A connection is named by its number, which is also the number of its reply sink: two
  sinks are the same channel when their numbers are equal. What the ZMTP crate delivers and
  what it makes of a write are inputs of the steps.
\<close>

section \<open>Reply sinks\<close>

text \<open>
  What a waiting \<open>send\<close> finds each time it is polled: the value of the watch channel,
  whether the connection's task still holds its sender, and how far the request is.
\<close>

record sink_poll =
  poll_closed :: "error option"
  poll_watched :: bool
  poll_sent :: "unit result option"

definition sink_closed :: "sink_poll \<Rightarrow> error option" where
  "sink_closed p =
     (case poll_closed p of
        Some e \<Rightarrow> Some e
      | None \<Rightarrow> if poll_watched p then None else Some (closed ''router peer''))"

text \<open>The biased \<open>select!\<close> of \<open>ReplySink::send\<close>; \<open>None\<close> while it waits.\<close>

fun sink_send :: "sink_poll list \<Rightarrow> unit result option" where
  "sink_send [] = None"
| "sink_send (p # ps) =
     (case sink_closed p of
        Some e \<Rightarrow> Some (Inl e)
      | None \<Rightarrow> (case poll_sent p of Some r \<Rightarrow> Some r | None \<Rightarrow> sink_send ps))"

section \<open>Peers by identity\<close>

type_synonym router_peers = "(bytes, nat) hash_map"

definition peers_insert :: "bytes \<Rightarrow> nat \<Rightarrow> router_peers \<Rightarrow> router_peers" where
  "peers_insert i sink m = hm_insert i sink m"

definition peers_remove :: "bytes \<Rightarrow> nat \<Rightarrow> router_peers \<Rightarrow> router_peers" where
  "peers_remove i sink m = (if hm_get m i = Some sink then hm_remove i m else m)"

text \<open>
  \<open>RouterPeers::wait\<close>: the map as it is at the call and after each insertion that
  follows, none of which it misses because it enrolls before it looks.
\<close>

fun peers_wait :: "bytes \<Rightarrow> router_peers list \<Rightarrow> nat option" where
  "peers_wait i [] = None"
| "peers_wait i (m # ms) = (case hm_get m i of Some sink \<Rightarrow> Some sink | None \<Rightarrow> peers_wait i ms)"

section \<open>One connection\<close>

text \<open>
  \<open>rc_submitted\<close> records every request that entered the connection's channel, and
  \<open>rc_completed\<close> how the requests it took were answered.
\<close>

record router_conn =
  rc_identity :: bytes
  rc_requests :: "(nat \<times> frames) list"
  rc_submitted :: "(nat \<times> frames) list"
  rc_written :: "frames list"
  rc_completed :: "(nat \<times> unit result) list"
  rc_result :: "unit result option"
  rc_closed :: "error option"

definition conn_new :: "bytes \<Rightarrow> router_conn" where
  "conn_new i = \<lparr>rc_identity = i, rc_requests = [], rc_submitted = [], rc_written = [], rc_completed = [],
     rc_result = None, rc_closed = None\<rparr>"

text \<open>A turn of the writer loop.\<close>

definition conn_write :: "(zmtp_error + unit) \<Rightarrow> router_conn \<Rightarrow> router_conn" where
  "conn_write w k =
     (case rc_requests k of
        [] \<Rightarrow> k
      | (n, f) # rest \<Rightarrow>
          (case w of
             Inr _ \<Rightarrow> k\<lparr>rc_requests := rest, rc_written := rc_written k @ [f],
                       rc_completed := rc_completed k @ [(n, Inr ())]\<rparr>
           | Inl z \<Rightarrow> k\<lparr>rc_requests := rest, rc_completed := rc_completed k @ [(n, Inl (from_zmtp z))],
                       rc_result := Some (Inl (from_zmtp z))\<rparr>))"

text \<open>
  A turn of the reading loop: the session and the connection after it, and the message it
  hands to the kernel, if any. \<open>alive\<close> says whether the kernel still receives.
\<close>

definition conn_fail :: "error \<Rightarrow> router_conn \<Rightarrow> router_conn" where
  "conn_fail e k = k\<lparr>rc_result := Some (Inl e)\<rparr>"

fun conn_read :: "crates \<Rightarrow> bool \<Rightarrow> nat \<Rightarrow> (zmtp_error + incoming) \<Rightarrow> session \<Rightarrow> router_conn \<Rightarrow>
    session \<times> router_conn \<times> inbound option" where
  "conn_read c alive p (Inl z) s k = (s, conn_fail (from_zmtp z) k, None)"
| "conn_read c alive p (Inr (Message f)) s k =
     (case decode c s f of
        (Inr m, s') \<Rightarrow>
          if alive then (s', k, Some \<lparr>message = m, reply = p, identity = rc_identity k\<rparr>)
          else (s', conn_fail from_send k, None)
      | (Inl DuplicateSignature, s') \<Rightarrow> (s', k, None)
      | (Inl e, s') \<Rightarrow> (s', conn_fail (from_wire e) k, None))"
| "conn_read c alive p (Inr x) s k =
     (s, conn_fail (error_new Protocol ''unexpected command on ROUTER peer'') k, None)"

text \<open>What the task leaves in the watch channel when it ends.\<close>

definition close_reason :: "unit result \<Rightarrow> error" where
  "close_reason r = (case r of Inl e \<Rightarrow> e | Inr _ \<Rightarrow> closed ''router peer'')"

section \<open>The router\<close>

text \<open>
  \<open>ro_tracks\<close> says whether the channel keeps a map of its peers, as the stdin channel
  does. \<open>ro_accepted\<close> records the frames behind each message in \<open>ro_incoming\<close>.
\<close>

record router =
  ro_session :: session
  ro_tracks :: bool
  ro_peers :: router_peers
  ro_conns :: "nat \<Rightarrow> router_conn"
  ro_next :: nat
  ro_alive :: bool
  ro_incoming :: "inbound list"
  ro_accepted :: "frames list"

definition router_new :: "bool \<Rightarrow> session \<Rightarrow> router" where
  "router_new tracks s = \<lparr>ro_session = s, ro_tracks = tracks, ro_peers = [], ro_conns = (\<lambda>_. conn_new []), ro_next = 0, ro_alive = True,
     ro_incoming = [], ro_accepted = []\<rparr>"

definition router_connect :: "bytes \<Rightarrow> router \<Rightarrow> router" where
  "router_connect i s = s\<lparr>ro_conns := (ro_conns s)(ro_next s := conn_new i),
     ro_peers := (if ro_tracks s then peers_insert i (ro_next s) (ro_peers s) else ro_peers s), ro_next := Suc (ro_next s)\<rparr>"

definition router_read :: "crates \<Rightarrow> nat \<Rightarrow> (zmtp_error + incoming) \<Rightarrow> router \<Rightarrow> router" where
  "router_read c p x s =
     (let (z, k, ib) = conn_read c (ro_alive s) p x (ro_session s) (ro_conns s p) in
      s\<lparr>ro_session := z, ro_conns := (ro_conns s)(p := k),
        ro_incoming := ro_incoming s @ (case ib of Some i \<Rightarrow> [i] | None \<Rightarrow> []),
        ro_accepted := ro_accepted s @ (case ib of Some i \<Rightarrow> (case x of Inr (Message f) \<Rightarrow> [f] | _ \<Rightarrow> []) | None \<Rightarrow> [])\<rparr>)"

definition router_write :: "nat \<Rightarrow> (zmtp_error + unit) \<Rightarrow> router \<Rightarrow> router" where
  "router_write p w s = s\<lparr>ro_conns := (ro_conns s)(p := conn_write w (ro_conns s p))\<rparr>"

text \<open>A request that \<open>ReplySink::send\<close> got into the channel of a connection.\<close>

definition router_submit :: "nat \<Rightarrow> nat \<Rightarrow> frames \<Rightarrow> router \<Rightarrow> router" where
  "router_submit p n f s =
     (let k = ro_conns s p in
      s\<lparr>ro_conns := (ro_conns s)(p := k\<lparr>rc_requests := rc_requests k @ [(n, f)], rc_submitted := rc_submitted k @ [(n, f)]\<rparr>)\<rparr>)"

text \<open>The end of a connection's task: it closes its sink and then leaves the map.\<close>

definition router_close :: "nat \<Rightarrow> unit result \<Rightarrow> router \<Rightarrow> router" where
  "router_close p r s = s\<lparr>ro_conns := (ro_conns s)(p := (ro_conns s p)\<lparr>rc_closed := Some (close_reason r)\<rparr>)\<rparr>"

definition router_leave :: "nat \<Rightarrow> router \<Rightarrow> router" where
  "router_leave p s = s\<lparr>ro_peers := (if ro_tracks s then peers_remove (rc_identity (ro_conns s p)) p (ro_peers s)
     else ro_peers s)\<rparr>"

inductive router_step :: "crates \<Rightarrow> router \<Rightarrow> router \<Rightarrow> bool" for c :: crates where
  connected: "router_step c s (router_connect i s)"
| reads: "p < ro_next s \<Longrightarrow> rc_result (ro_conns s p) = None \<Longrightarrow> router_step c s (router_read c p x s)"
| writes: "p < ro_next s \<Longrightarrow> rc_result (ro_conns s p) = None \<Longrightarrow> router_step c s (router_write p w s)"
| submitted: "p < ro_next s \<Longrightarrow> rc_closed (ro_conns s p) = None \<Longrightarrow> router_step c s (router_submit p n f s)"
| closes: "p < ro_next s \<Longrightarrow> rc_result (ro_conns s p) = Some r \<Longrightarrow> rc_closed (ro_conns s p) = None \<Longrightarrow>
    router_step c s (router_close p r s)"
| leaves: "p < ro_next s \<Longrightarrow> rc_closed (ro_conns s p) \<noteq> None \<Longrightarrow> router_step c s (router_leave p s)"
| kernel_gone: "router_step c s (s\<lparr>ro_alive := False\<rparr>)"

definition router_start :: "bool \<Rightarrow> session \<Rightarrow> router \<Rightarrow> bool" where
  "router_start tracks z s \<longleftrightarrow> s = router_new tracks z"

section \<open>Accepting connections\<close>

text \<open>How the task of a connection ended, as \<open>JoinSet::join_next\<close> gives it.\<close>

datatype peer_end = Joined "unit result" | JoinFailed string

definition peer_finished :: "peer_end \<Rightarrow> string \<Rightarrow> unit result \<times> effect list" where
  "peer_finished r channel =
     (case r of
        JoinFailed t \<Rightarrow> (Inl (from_join t), [])
      | Joined (Inl e) \<Rightarrow>
          (Inr (), if kind e \<noteq> Closed then [Stderr (channel @ '' peer ended: '' @ show_error e)] else [])
      | Joined (Inr _) \<Rightarrow> (Inr (), []))"

text \<open>
  The loop of \<open>serve_router\<close>, \<open>Iopub::serve\<close> and \<open>serve_heartbeat\<close>
  over what happens to it: a connection is accepted, accepting fails, or a connection's
  task ends. \<open>None\<close> means that it still runs; the number counts the accepted
  connections.
\<close>

datatype serve_event = Accepted | AcceptFailed "int option" string | PeerEnded peer_end

fun serve_loop :: "string \<Rightarrow> serve_event list \<Rightarrow> nat \<Rightarrow> effect list \<Rightarrow> unit result option \<times> nat \<times> effect list" where
  "serve_loop channel [] n out = (None, n, out)"
| "serve_loop channel (Accepted # es) n out = serve_loop channel es (Suc n) out"
| "serve_loop channel (AcceptFailed errno t # es) n out = (Some (Inl (from_io errno t)), n, out)"
| "serve_loop channel (PeerEnded r # es) n out =
     (case peer_finished r channel of
        (Inl e, xs) \<Rightarrow> (Some (Inl e), n, out @ xs)
      | (Inr _, xs) \<Rightarrow> serve_loop channel es n (out @ xs))"

text \<open>
  The task of a heartbeat connection over what it receives and what becomes of its writes:
  the writes it made, and its result once it ends.
\<close>

datatype heartbeat_write = Echo frames | HeartbeatPong bytes

fun heartbeat_answer :: "incoming \<Rightarrow> heartbeat_write result" where
  "heartbeat_answer (Message f) = Inr (Echo f)"
| "heartbeat_answer (Ping ctx) = Inr (HeartbeatPong ctx)"
| "heartbeat_answer _ = Inl (error_new Protocol ''subscription command on heartbeat peer'')"

fun heartbeat_peer :: "((zmtp_error + incoming) \<times> (zmtp_error + unit)) list \<Rightarrow> heartbeat_write list \<times> unit result option" where
  "heartbeat_peer [] = ([], None)"
| "heartbeat_peer ((Inl z, w) # xs) = ([], Some (Inl (from_zmtp z)))"
| "heartbeat_peer ((Inr x, w) # xs) =
     (case heartbeat_answer x of
        Inl e \<Rightarrow> ([], Some (Inl e))
      | Inr h \<Rightarrow>
          (case w of
             Inl z \<Rightarrow> ([], Some (Inl (from_zmtp z)))
           | Inr _ \<Rightarrow> (let (hs, r) = heartbeat_peer xs in (h # hs, r))))"

section \<open>Lemmas\<close>

lemma peers_get:
  "hm_get (peers_insert i p m) j = (if j = i then Some p else hm_get m j)"
  "hm_get (peers_remove i p m) j = (if j = i \<and> hm_get m i = Some p then None else hm_get m j)"
  by (auto simp: peers_insert_def peers_remove_def hm_get_insert hm_get_remove)

text \<open>The connection is the last one so far that came with its identity.\<close>

definition latest :: "router \<Rightarrow> nat \<Rightarrow> bool" where
  "latest s p \<longleftrightarrow> p < ro_next s \<and>
     (\<forall>q. p < q \<and> q < ro_next s \<longrightarrow> rc_identity (ro_conns s q) \<noteq> rc_identity (ro_conns s p))"

definition peers_ok :: "router \<Rightarrow> bool" where
  "peers_ok s \<longleftrightarrow> ro_tracks s \<longrightarrow>
     (\<forall>i p. hm_get (ro_peers s) i = Some p \<longrightarrow> latest s p \<and> rc_identity (ro_conns s p) = i) \<and>
     (\<forall>p. latest s p \<and> rc_closed (ro_conns s p) = None \<longrightarrow> hm_get (ro_peers s) (rc_identity (ro_conns s p)) = Some p)"

definition replies_ok :: "router_conn \<Rightarrow> bool" where
  "replies_ok k \<longleftrightarrow>
     (\<exists>sent. rc_written k = map snd sent \<and>
       (if rc_result k = None
        then rc_submitted k = sent @ rc_requests k \<and> rc_completed k = map (\<lambda>(n, f). (n, Inr ())) sent
        else \<exists>rest. rc_submitted k = sent @ rest))"

definition accepted_ok :: "session \<Rightarrow> router \<Rightarrow> bool" where
  "accepted_ok z s \<longleftrightarrow> key (ro_session s) = key z \<and>
     (key z \<noteq> [] \<longrightarrow> distinct (map frame_signature (ro_accepted s)) \<and>
        set (map frame_signature (ro_accepted s)) \<subseteq> Some ` seen (ro_session s)) \<and>
     length (ro_incoming s) = length (ro_accepted s) \<and>
     (\<forall>ib\<in>set (ro_incoming s). reply ib < ro_next s \<and> identity ib = rc_identity (ro_conns s (reply ib)))"

definition router_ok :: "session \<Rightarrow> router \<Rightarrow> bool" where
  "router_ok z s \<longleftrightarrow> peers_ok s \<and> (\<forall>p<ro_next s. replies_ok (ro_conns s p)) \<and> accepted_ok z s"

text \<open>A step that keeps the identities of the connections, and reopens none.\<close>

lemma peers_ok_same:
  assumes "peers_ok s" and "ro_tracks s' = ro_tracks s" and "ro_peers s' = ro_peers s" and "ro_next s' = ro_next s"
    and "\<And>p. rc_identity (ro_conns s' p) = rc_identity (ro_conns s p)"
    and "\<And>p. rc_closed (ro_conns s' p) = None \<Longrightarrow> rc_closed (ro_conns s p) = None"
  shows "peers_ok s'"
proof -
  have "latest s' = latest s" using assms(4,5) by (simp add: latest_def fun_eq_iff)
  with assms show ?thesis by (simp add: peers_ok_def)
qed

lemma peers_ok_connect:
  assumes "peers_ok s"
  shows "peers_ok (router_connect i s)"
proof (cases "ro_tracks s")
  case True
  let ?s = "router_connect i s"
  have new: "latest ?s p \<longleftrightarrow> p = ro_next s \<or> latest s p \<and> rc_identity (ro_conns s p) \<noteq> i" for p
    by (auto simp: latest_def router_connect_def conn_new_def less_Suc_eq)
  have conn: "ro_conns ?s p = (if p = ro_next s then conn_new i else ro_conns s p)" for p
    by (simp add: router_connect_def)
  have get: "hm_get (ro_peers ?s) j = (if j = i then Some (ro_next s) else hm_get (ro_peers s) j)" for j
    using True by (simp add: router_connect_def peers_get)
  have old: "latest s p \<Longrightarrow> p \<noteq> ro_next s" for p by (auto simp: latest_def)
  have "latest ?s p \<and> rc_identity (ro_conns ?s p) = j" if "hm_get (ro_peers ?s) j = Some p" for j p
    using that assms True old [of p] unfolding new conn get by (auto simp: peers_ok_def conn_new_def split: if_splits)
  moreover have "hm_get (ro_peers ?s) (rc_identity (ro_conns ?s p)) = Some p"
    if "latest ?s p" "rc_closed (ro_conns ?s p) = None" for p
    using that assms True old [of p] unfolding new conn get by (auto simp: peers_ok_def conn_new_def split: if_splits)
  ultimately show ?thesis unfolding peers_ok_def by blast
qed (simp add: peers_ok_def router_connect_def)

lemma peers_ok_leave:
  assumes "peers_ok s" and "rc_closed (ro_conns s p) \<noteq> None"
  shows "peers_ok (router_leave p s)"
proof -
  let ?s = "router_leave p s"
  have fields: "latest ?s = latest s" "ro_conns ?s = ro_conns s" "ro_tracks ?s = ro_tracks s"
    by (simp_all add: latest_def router_leave_def fun_eq_iff)
  have get: "hm_get (ro_peers ?s) j = (if j = rc_identity (ro_conns s p) \<and> hm_get (ro_peers s) j = Some p then None
      else hm_get (ro_peers s) j)" if "ro_tracks s" for j
    using that by (auto simp: router_leave_def peers_get)
  show ?thesis
  proof (cases "ro_tracks s")
    case True
    have "latest s q \<and> rc_identity (ro_conns s q) = j" if "hm_get (ro_peers ?s) j = Some q" for j q
      using that assms(1) True unfolding get [OF True] by (auto simp: peers_ok_def split: if_splits)
    moreover have "hm_get (ro_peers ?s) (rc_identity (ro_conns s q)) = Some q"
      if "latest s q" "rc_closed (ro_conns s q) = None" for q
      using that assms True unfolding get [OF True] by (auto simp: peers_ok_def)
    ultimately show ?thesis unfolding peers_ok_def fields by blast
  qed (simp add: peers_ok_def fields)
qed

lemma replies_ok_fail: "replies_ok k \<Longrightarrow> replies_ok (k\<lparr>rc_result := Some r\<rparr>)"
  by (auto simp: replies_ok_def split: if_splits)

lemma conn_read_fields:
  assumes "conn_read c alive p x s k = (s', k', ib)"
  shows "rc_identity k' = rc_identity k" "rc_closed k' = rc_closed k" "replies_ok k \<Longrightarrow> replies_ok k'"
    and "key s' = key s" and "seen s \<subseteq> seen s'"
    and "ib = Some b \<Longrightarrow> \<exists>f m. x = Inr (Message f) \<and> decode c s f = (Inr m, s') \<and> reply b = p \<and> identity b = rc_identity k"
proof -
  have "rc_identity k' = rc_identity k \<and> rc_closed k' = rc_closed k \<and> (replies_ok k \<longrightarrow> replies_ok k') \<and>
    key s' = key s \<and> seen s \<subseteq> seen s' \<and>
    (ib = Some b \<longrightarrow> (\<exists>f m. x = Inr (Message f) \<and> decode c s f = (Inr m, s') \<and> reply b = p \<and> identity b = rc_identity k))"
  proof (cases "\<exists>f. x = Inr (Message f)")
    case True
    then obtain f where x: "x = Inr (Message f)" ..
    obtain r t where d: "decode c s f = (r, t)" by fastforce
    have "key t = key s" "seen s \<subseteq> seen t" using decode_key [of c s f] decode_seen_mono [of s c f] by (simp_all add: d)
    with assms d show ?thesis unfolding x
      by (cases r) (auto simp: replies_ok_fail conn_fail_def split: if_splits wire_error.splits)
  next
    case False
    with assms show ?thesis
      by (cases "(c, alive, p, x, s, k)" rule: conn_read.cases) (auto simp: replies_ok_fail conn_fail_def)
  qed
  then show "rc_identity k' = rc_identity k" "rc_closed k' = rc_closed k" "replies_ok k \<Longrightarrow> replies_ok k'"
    and "key s' = key s" and "seen s \<subseteq> seen s'"
    and "ib = Some b \<Longrightarrow> \<exists>f m. x = Inr (Message f) \<and> decode c s f = (Inr m, s') \<and> reply b = p \<and> identity b = rc_identity k"
    by blast+
qed

lemma replies_ok_write: "replies_ok k \<Longrightarrow> rc_result k = None \<Longrightarrow> replies_ok (conn_write w k)"
  by (fastforce simp: conn_write_def replies_ok_def split: list.splits sum.splits)

lemma replies_ok_close: "replies_ok (k\<lparr>rc_closed := x\<rparr>) = replies_ok k"
  by (simp add: replies_ok_def)

lemma conn_write_fields: "rc_identity (conn_write w k) = rc_identity k" "rc_closed (conn_write w k) = rc_closed k"
  by (simp_all add: conn_write_def split: list.split sum.split prod.split)

lemma router_ok_connect:
  assumes "router_ok z s"
  shows "router_ok z (router_connect i s)"
proof -
  have "replies_ok (conn_new i)" by (simp add: replies_ok_def conn_new_def)
  then have "\<forall>p<ro_next (router_connect i s). replies_ok (ro_conns (router_connect i s) p)"
    using assms by (simp add: router_ok_def router_connect_def less_Suc_eq)
  moreover have "accepted_ok z (router_connect i s)"
    using assms by (fastforce simp: router_ok_def accepted_ok_def router_connect_def)
  ultimately show ?thesis using assms peers_ok_connect by (simp add: router_ok_def)
qed

lemma router_ok_update:
  assumes "router_ok z s" and "p < ro_next s" and "replies_ok k" and "rc_identity k = rc_identity (ro_conns s p)"
    and "rc_closed k = None \<Longrightarrow> rc_closed (ro_conns s p) = None"
  shows "router_ok z (s\<lparr>ro_conns := (ro_conns s)(p := k)\<rparr>)"
proof -
  have "peers_ok (s\<lparr>ro_conns := (ro_conns s)(p := k)\<rparr>)"
    by (rule peers_ok_same [of s]) (use assms in \<open>auto simp: router_ok_def split: if_splits\<close>)
  with assms show ?thesis by (auto simp: router_ok_def accepted_ok_def)
qed

lemma router_ok_read:
  assumes ok: "router_ok z s" and p: "p < ro_next s"
  shows "router_ok z (router_read c p x s)"
proof -
  obtain t k ib where r: "conn_read c (ro_alive s) p x (ro_session s) (ro_conns s p) = (t, k, ib)"
    using prod_cases3 by blast
  note fields = conn_read_fields [OF r]
  have base: "router_ok z (s\<lparr>ro_conns := (ro_conns s)(p := k)\<rparr>)"
    using ok p fields(1-3) by (intro router_ok_update) (auto simp: router_ok_def)
  show ?thesis
  proof (cases ib)
    case None
    then have "router_read c p x s = s\<lparr>ro_session := t, ro_conns := (ro_conns s)(p := k)\<rparr>"
      using r by (simp add: router_read_def)
    moreover have "peers_ok (s\<lparr>ro_session := t, ro_conns := (ro_conns s)(p := k)\<rparr>)"
      by (rule peers_ok_same [of "s\<lparr>ro_conns := (ro_conns s)(p := k)\<rparr>"]) (use base in \<open>simp_all add: router_ok_def\<close>)
    moreover have "key z \<noteq> [] \<longrightarrow> set (map frame_signature (ro_accepted s)) \<subseteq> Some ` seen t"
      using ok fields(5) unfolding router_ok_def accepted_ok_def by blast
    ultimately show ?thesis using base fields(4) by (simp add: router_ok_def accepted_ok_def)
  next
    case (Some b)
    with fields(6) [of b] obtain f m where x: "x = Inr (Message f)" and d: "decode c (ro_session s) f = (Inr m, t)"
      and b: "reply b = p" "identity b = rc_identity (ro_conns s p)" by auto
    let ?s = "s\<lparr>ro_session := t, ro_conns := (ro_conns s)(p := k), ro_incoming := ro_incoming s @ [b],
      ro_accepted := ro_accepted s @ [f]\<rparr>"
    have read: "router_read c p x s = ?s" using r Some x by (simp add: router_read_def)
    have "peers_ok ?s"
      by (rule peers_ok_same [of "s\<lparr>ro_conns := (ro_conns s)(p := k)\<rparr>"]) (use base in \<open>simp_all add: router_ok_def\<close>)
    moreover have "distinct (map frame_signature (ro_accepted ?s)) \<and>
        set (map frame_signature (ro_accepted ?s)) \<subseteq> Some ` seen t" if "key z \<noteq> []"
    proof -
      have "key (ro_session s) \<noteq> []" using that ok by (simp add: router_ok_def accepted_ok_def)
      from decode_accepts [OF this d] obtain sig where "frame_signature f = Some sig" "sig \<notin> seen (ro_session s)"
        "seen t = insert sig (seen (ro_session s))" by blast
      with ok that show ?thesis by (auto simp: router_ok_def accepted_ok_def)
    qed
    ultimately show ?thesis
      unfolding read using base fields(1,4) b p by (auto simp: router_ok_def accepted_ok_def)
  qed
qed

lemma router_ok_write:
  assumes "router_ok z s" and "p < ro_next s" and "rc_result (ro_conns s p) = None"
  shows "router_ok z (router_write p w s)"
  unfolding router_write_def
  by (rule router_ok_update [OF assms(1,2)]) (use assms in \<open>auto simp: router_ok_def replies_ok_write conn_write_fields\<close>)

lemma router_ok_submit:
  assumes "router_ok z s" and "p < ro_next s"
  shows "router_ok z (router_submit p n f s)"
  unfolding router_submit_def Let_def
  by (rule router_ok_update [OF assms]) (use assms in \<open>fastforce simp: router_ok_def replies_ok_def split: if_splits\<close>)+

interpretation ro: inductive_invariant "router_start tracks z" "router_step c" "router_ok z"
proof
  show "router_ok z s" if "router_start tracks z s" for s
    using that by (simp add: router_start_def router_new_def router_ok_def peers_ok_def accepted_ok_def latest_def hm_get_def)
next
  fix s t assume "router_ok z s" and "router_step c s t"
  from this(2,1) show "router_ok z t"
  proof cases
    case (closes p r)
    with \<open>router_ok z s\<close> show ?thesis
      unfolding closes(1) router_close_def by (intro router_ok_update) (auto simp: router_ok_def replies_ok_close)
  next
    case (leaves p)
    have "peers_ok t" using \<open>router_ok z s\<close> leaves by (simp add: peers_ok_leave router_ok_def)
    moreover have "ro_conns t = ro_conns s" "ro_next t = ro_next s" "accepted_ok z t = accepted_ok z s"
      unfolding leaves(1) by (simp_all add: router_leave_def accepted_ok_def)
    ultimately show ?thesis using \<open>router_ok z s\<close> by (simp add: router_ok_def)
  next
    case kernel_gone
    moreover have "peers_ok (s\<lparr>ro_alive := False\<rparr>)"
      by (rule peers_ok_same [of s]) (use \<open>router_ok z s\<close> in \<open>simp_all add: router_ok_def\<close>)
    ultimately show ?thesis using \<open>router_ok z s\<close> by (auto simp: router_ok_def accepted_ok_def)
  qed (auto intro: router_ok_connect router_ok_read router_ok_write router_ok_submit)
qed

section \<open>Properties\<close>


text \<open>Two connections with the same identity carry the same message, and one gets a reply.\<close>

definition demo_router :: router where
  "demo_router = router_write 1 (Inr ()) (router_submit 1 7 [''f''] (router_read demo_crates 1 (Inr (Message demo_frames))
     (router_connect ''c'' (router_read demo_crates 0 (Inr (Message demo_frames)) (router_connect ''c''
       (router_new True demo_session))))))"

lemma reach_router:
  fixes start c defines "R \<equiv> reachable start (router_step c)"
  shows "R s \<Longrightarrow> R (router_connect i s)"
    and "R s \<Longrightarrow> p < ro_next s \<Longrightarrow> rc_result (ro_conns s p) = None \<Longrightarrow> R (router_read c p x s)"
    and "R s \<Longrightarrow> p < ro_next s \<Longrightarrow> rc_result (ro_conns s p) = None \<Longrightarrow> R (router_write p w s)"
    and "R s \<Longrightarrow> p < ro_next s \<Longrightarrow> rc_closed (ro_conns s p) = None \<Longrightarrow> R (router_submit p n f s)"
  unfolding R_def by (blast intro: reach_step router_step.intros)+

lemma demo_router_reachable: "reachable (router_start True demo_session) (router_step demo_crates) demo_router"
proof -
  have start: "reachable (router_start True demo_session) (router_step demo_crates) (router_new True demo_session)"
    by (rule reach_start) (simp add: router_start_def)
  show ?thesis unfolding demo_router_def by (intro reach_router start; code_simp)
qed




text \<open>
  A client that comes back is found again. In a channel that tracks its peers, waiting
  for an identity finds the last connection that came with it, and finds it as long as that
  connection has not ended, also when earlier connections with the same identity end
  later.
\<close>

theorem reconnected_peer_found:
  assumes "reachable (router_start True z) (router_step c) s"
  shows "(peers_wait i [ro_peers s] = Some p \<longrightarrow> latest s p \<and> rc_identity (ro_conns s p) = i) \<and>
    (latest s q \<and> rc_closed (ro_conns s q) = None \<longrightarrow>
      peers_wait (rc_identity (ro_conns s q)) (ro_peers s # ms) = Some q)"
proof -
  have "ro_tracks s" using assms
    by (induction rule: reachable.induct)
      (auto simp: router_start_def router_new_def router_connect_def router_read_def router_write_def router_submit_def
        router_close_def router_leave_def Let_def split: prod.splits elim!: router_step.cases)
  with ro.inv_reachable [OF assms] show ?thesis by (auto simp: router_ok_def peers_ok_def split: option.splits)
qed

theorem reconnected_peer_found_witness:
  "peers_wait ''c'' [ro_peers demo_router] = Some 1 \<and> latest demo_router 1"
proof
  show "peers_wait ''c'' [ro_peers demo_router] = Some 1" by code_simp
  then show "latest demo_router 1" using reconnected_peer_found [OF demo_router_reachable, of "''c''" 1] by blast
qed

text \<open>
  A listener outlives its connections. However its connections end, and with whatever
  errors, the loop that accepts connections goes on; it ends only when accepting fails or
  when a connection's task panics, and every error but a closed connection is printed.
\<close>

theorem listener_outlives_peers:
  assumes "\<And>x. x \<in> set es \<Longrightarrow> x = Accepted \<or> (\<exists>r. x = PeerEnded (Joined r))"
  shows "serve_loop channel es n out =
    (None, n + length (filter (\<lambda>x. x = Accepted) es),
     out @ concat (map (\<lambda>x. case x of
        PeerEnded (Joined (Inl e)) \<Rightarrow>
          if kind e = Closed then [] else [Stderr (channel @ '' peer ended: '' @ show_error e)]
      | _ \<Rightarrow> []) es))"
  using assms
proof (induction es arbitrary: n out)
  case (Cons x es)
  from Cons.prems [of x] consider "x = Accepted" | e where "x = PeerEnded (Joined (Inl e))"
    | "x = PeerEnded (Joined (Inr ()))" by (auto simp: sum.split) (metis old.unit.exhaust sum.exhaust)
  then show ?case using Cons.IH Cons.prems by cases (simp_all add: peer_finished_def)
qed simp

theorem listener_outlives_peers_witness:
  "serve_loop ''router'' [Accepted, PeerEnded (Joined (Inl (closed ''router peer''))), Accepted] 0 [] = (None, 2, [])"
proof -
  let ?es = "[Accepted, PeerEnded (Joined (Inl (closed ''router peer''))), Accepted]"
  have "x = Accepted \<or> (\<exists>r. x = PeerEnded (Joined r))" if "x \<in> set ?es" for x using that by auto
  from listener_outlives_peers [OF this, of ?es "''router''" 0 "[]"] show ?thesis by (simp del: serve_loop.simps)
qed

end
