(* ===== verification/Startup.thy ===== *)
theory Startup
  imports Kernel Text
begin

text \<open>
  Starting a kernel: the configuration from the environment (\<open>KernelConfig::from_env\<close>
  in \<open>src/src/engine.rs\<close>), the connection file (\<open>src/src/connection.rs\<close>) and
  the part of \<open>run_kernel_with_interrupter\<close> before its loop.

  Files, sockets and the
  deserializer's messages are parameters. A panic is the value \<open>None\<close>.
\<close>

section \<open>Configuration\<close>

text \<open>
  \<open>Duration::from_secs_f64\<close> in nanoseconds, for a value that is finite and not
  negative: it panics at two to the 64 seconds.
\<close>

definition duration_from_secs :: "rat \<Rightarrow> nat option" where
  "duration_from_secs q = (if q < 2 ^ 64 then Some (nat (half_even (q * 10 ^ 9))) else None)"

definition hold_seconds :: "(string \<Rightarrow> string option) \<Rightarrow> rat" where
  "hold_seconds env =
     (case Option.bind (env ''KERNMINI_HOLD_TIMEOUT'') parse_f64 of
        Some (Finite q) \<Rightarrow> if 0 \<le> q then q else 3600
      | _ \<Rightarrow> 3600)"

definition from_env :: "(string \<Rightarrow> string option) \<Rightarrow> kernel_config option" where
  "from_env env =
     (let capacity = max (case Option.bind (env ''KERNMINI_IOPUB_QMAX'') parse_usize of Some n \<Rightarrow> n | None \<Rightarrow> 10000) 1 in
      map_option (\<lambda>t. \<lparr>iopub_capacity = capacity, hold_timeout = t\<rparr>) (duration_from_secs (hold_seconds env)))"

section \<open>The connection file\<close>

type_synonym u16 = "16 word"

record connection_info =
  conn_transport :: string
  conn_ip :: string
  shell_port :: u16
  iopub_port :: u16
  stdin_port :: u16
  control_port :: u16
  hb_port :: u16
  conn_key :: string
  signature_scheme :: string

text \<open>
  The deserializer that \<open>derive\<close> writes: each field once and of its type, in any
  order, and no other field looked at; \<open>None\<close> where it fails.
\<close>

definition field_once :: "json_map \<Rightarrow> string \<Rightarrow> json option" where
  "field_once m k = (case filter (\<lambda>e. fst e = k) m of [(_, v)] \<Rightarrow> Some v | _ \<Rightarrow> None)"

fun as_u16 :: "json \<Rightarrow> u16 option" where
  "as_u16 (JNum (PosInt n)) = (if unat n < 2 ^ 16 then Some (ucast n) else None)"
| "as_u16 _ = None"

definition connection_fields :: "json_map \<Rightarrow> connection_info option" where
  "connection_fields m =
     (let str = (\<lambda>k. Option.bind (field_once m k) as_str); port = (\<lambda>k. Option.bind (field_once m k) as_u16) in
      Option.bind (str ''transport'') (\<lambda>t.
      Option.bind (str ''ip'') (\<lambda>ip.
      Option.bind (port ''shell_port'') (\<lambda>sp.
      Option.bind (port ''iopub_port'') (\<lambda>ip'.
      Option.bind (port ''stdin_port'') (\<lambda>st.
      Option.bind (port ''control_port'') (\<lambda>cp.
      Option.bind (port ''hb_port'') (\<lambda>hb.
      Option.bind (if ''key'' \<in> fst ` set m then str ''key'' else Some '''') (\<lambda>k.
      Option.bind (str ''signature_scheme'') (\<lambda>sig.
      Some \<lparr>conn_transport = t, conn_ip = ip, shell_port = sp, iopub_port = ip', stdin_port = st,
            control_port = cp, hb_port = hb, conn_key = k, signature_scheme = sig\<rparr>))))))))))"

text \<open>A struct may also be given as an array of its fields in the order of the declaration.\<close>

fun connection_of_json :: "json \<Rightarrow> connection_info option" where
  "connection_of_json (JObj m) = connection_fields m"
| "connection_of_json (JArr vs) =
     (if length vs = 9
      then connection_fields (zip [''transport'', ''ip'', ''shell_port'', ''iopub_port'', ''stdin_port'',
             ''control_port'', ''hb_port'', ''key'', ''signature_scheme''] vs)
      else None)"
| "connection_of_json _ = None"

text \<open>What the kernel finds outside: \<open>ho_reject\<close> is the deserializer's message.\<close>

record host =
  ho_env :: "string \<Rightarrow> string option"
  ho_read :: "string \<Rightarrow> (int option \<times> string) + bytes"
  ho_reject :: "json \<Rightarrow> string"
  ho_bind :: "nat \<Rightarrow> string \<Rightarrow> (int option \<times> string) + unit"

definition connection_read :: "crates \<Rightarrow> host \<Rightarrow> string \<Rightarrow> connection_info result" where
  "connection_read c h path =
     (case ho_read h path of
        Inl (errno, t) \<Rightarrow> Inl (context_err (from_io errno t) (''reading '' @ path))
      | Inr b \<Rightarrow>
          (case from_slice c b of
             Inl e \<Rightarrow> Inl (context_err (from_json e) (''parsing '' @ path))
           | Inr v \<Rightarrow>
               (case connection_of_json v of
                  None \<Rightarrow> Inl (context_err (from_json (ho_reject h v)) (''parsing '' @ path))
                | Some k \<Rightarrow> Inr k)))"

definition address :: "connection_info \<Rightarrow> u16 \<Rightarrow> string result" where
  "address k port =
     (if conn_transport k \<noteq> ''tcp''
      then Inl (error_new Unavailable ''only TCP connection files are supported'')
      else if signature_scheme k \<noteq> ''hmac-sha256''
      then Inl (error_new Unavailable (''unsupported signature scheme '' @ signature_scheme k))
      else Inr (conn_ip k @ '':'' @ show_nat (unat port)))"

section \<open>Before the loop\<close>

text \<open>The listeners, in the order they are bound; the addresses bound so far are kept.\<close>

fun bind_all :: "host \<Rightarrow> connection_info \<Rightarrow> u16 list \<Rightarrow> string list \<Rightarrow> unit result \<times> string list" where
  "bind_all h k [] bound = (Inr (), bound)"
| "bind_all h k (p # ps) bound =
     (case address k p of
        Inl e \<Rightarrow> (Inl e, bound)
      | Inr a \<Rightarrow>
          (case ho_bind h (length bound) a of
             Inl (errno, t) \<Rightarrow> (Inl (from_io errno t), bound)
           | Inr _ \<Rightarrow> bind_all h k ps (bound @ [a])))"

definition connection_content :: "connection_info \<Rightarrow> json" where
  "connection_content k =
     JObj [(''shell_port'', jnat (ucast (shell_port k))), (''iopub_port'', jnat (ucast (iopub_port k))),
           (''stdin_port'', jnat (ucast (stdin_port k))), (''control_port'', jnat (ucast (control_port k))),
           (''hb_port'', jnat (ucast (hb_port k)))]"

text \<open>
  The services of the kernel, or the error that ends the start, with the addresses that
  were bound. \<open>ks\<close> carries the services that are decided outside the process.
\<close>

definition kernel_setup :: "host \<Rightarrow> kernel_services \<Rightarrow> language_family \<Rightarrow> string \<Rightarrow>
    (kernel_services result \<times> string list) option" where
  "kernel_setup h ks lang path =
     (case from_env (ho_env h) of
        None \<Rightarrow> None
      | Some config \<Rightarrow> Some
          (case connection_read (ks_crates ks) h path of
             Inl e \<Rightarrow> (Inl e, [])
           | Inr k \<Rightarrow>
               (case bind_all h k [shell_port k, control_port k, iopub_port k, hb_port k, stdin_port k] [] of
                  (Inl e, bound) \<Rightarrow> (Inl e, bound)
                | (Inr _, bound) \<Rightarrow>
                    (let ks' = ks\<lparr>ks_session := session_new (ks_crates ks) 0 (conn_key k) ''kernel'',
                         ks_connection := connection_content k, ks_supports_subshells := supports_children lang,
                         ks_config := config\<rparr>
                     in (case lang_set_debug_sender (parent_session lang) 0 of
                           Inl e \<Rightarrow> (Inl e, bound)
                         | Inr _ \<Rightarrow>
                             (case lang_set_kernel_context (parent_session lang) 1
                                 (output_context ks' default_message None 0) of
                                Inl e \<Rightarrow> (Inl e, bound)
                              | Inr _ \<Rightarrow> (Inr ks', bound)))))))"

section \<open>Lemmas\<close>

lemma hold_seconds_nonneg: "0 \<le> hold_seconds env"
  by (auto simp: hold_seconds_def split: option.splits f64_value.splits)

lemma duration_bound:
  assumes "duration_from_secs q = Some t" and "0 \<le> q"
  shows "q * 10 ^ 9 - 1 / 2 \<le> of_nat t" "of_nat t \<le> q * 10 ^ 9 + 1 / 2" "t \<le> 2 ^ 64 * 10 ^ 9"
proof -
  have t: "t = nat (half_even (q * 10 ^ 9))" and q: "q < 2 ^ 64"
    using assms(1) by (auto simp: duration_from_secs_def split: if_splits)
  have "- (1 / 2) \<le> (of_int (half_even (q * 10 ^ 9)) :: rat)"
    using half_even_bounds(1) [of "q * 10 ^ 9"] assms(2) by simp
  then have "0 \<le> half_even (q * 10 ^ 9)" by linarith
  then have "(of_nat t :: rat) = of_int (half_even (q * 10 ^ 9))" unfolding t by simp
  then show "q * 10 ^ 9 - 1 / 2 \<le> of_nat t" "of_nat t \<le> q * 10 ^ 9 + 1 / 2"
    using half_even_bounds [of "q * 10 ^ 9"] by simp_all
  have "q * 10 ^ 9 \<le> of_int (2 ^ 64 * 10 ^ 9)" using q by simp
  from nat_mono [OF half_even_le [OF this]] show "t \<le> 2 ^ 64 * 10 ^ 9" unfolding t by simp
qed

lemma bind_all_refused: "address k p = Inl e \<Longrightarrow> bind_all h k (p # ps) bound = (Inl e, bound)"
  by simp

lemma address_ok:
  "conn_transport k = ''tcp'' \<Longrightarrow> signature_scheme k = ''hmac-sha256'' \<Longrightarrow>
   address k p = Inr (conn_ip k @ '':'' @ show_nat (unat p))"
  by (simp add: address_def)

lemma bind_all_ok:
  assumes "conn_transport k = ''tcp''" and "signature_scheme k = ''hmac-sha256''" and "bind_all h k ps bound = (Inr u, b)"
  shows "b = bound @ map (\<lambda>p. conn_ip k @ '':'' @ show_nat (unat p)) ps"
  using assms(3)
proof (induction ps arbitrary: bound)
  case (Cons p ps)
  then have "bind_all h k ps (bound @ [conn_ip k @ '':'' @ show_nat (unat p)]) = (Inr u, b)"
    using address_ok [OF assms(1,2), of p] by (auto split: sum.splits)
  from Cons.IH [OF this] show ?case by simp
qed simp

section \<open>Properties\<close>


text \<open>
  A connection file that the kernel does not support is refused before any port is
  bound, and a kernel that starts has bound its five addresses in order, signs with the key
  of the file and reports its ports.
\<close>

theorem setup_binds:
  assumes "connection_read (ks_crates ks) h path = Inr k" and "kernel_setup h ks lang path = Some (r, bound)"
  shows "(conn_transport k \<noteq> ''tcp'' \<or> signature_scheme k \<noteq> ''hmac-sha256'' \<longrightarrow>
      (\<exists>e. r = Inl e \<and> kind e = Unavailable) \<and> bound = []) \<and>
    (\<forall>ks'. r = Inr ks' \<longrightarrow>
      bound = map (\<lambda>p. conn_ip k @ '':'' @ show_nat (unat p))
        [shell_port k, control_port k, iopub_port k, hb_port k, stdin_port k] \<and>
      key (ks_session ks') = conn_key k \<and> ks_connection ks' = connection_content k)"
proof -
  let ?ps = "[shell_port k, control_port k, iopub_port k, hb_port k, stdin_port k]"
  obtain b bound' where bind: "bind_all h k ?ps [] = (b, bound')" by fastforce
  have refused: "\<exists>e. b = Inl e \<and> kind e = Unavailable \<and> bound' = []"
    if "conn_transport k \<noteq> ''tcp'' \<or> signature_scheme k \<noteq> ''hmac-sha256''"
  proof -
    from that have "\<exists>e. address k (shell_port k) = Inl e \<and> kind e = Unavailable"
      by (cases "conn_transport k = ''tcp''") (simp_all add: address_def)
    then obtain e where "address k (shell_port k) = Inl e" "kind e = Unavailable" by blast
    with bind_all_refused [OF this(1)] bind show ?thesis by auto
  qed
  have started: "bound = bound' \<and> (\<forall>e. b = Inl e \<longrightarrow> r = Inl e) \<and> (\<forall>ks'. r = Inr ks' \<longrightarrow> b = Inr () \<and>
      key (ks_session ks') = conn_key k \<and> ks_connection ks' = connection_content k)"
    using assms(2) unfolding kernel_setup_def assms(1) sum.case bind
    by (auto simp: Let_def session_new_def split: option.splits sum.splits)
  show ?thesis
  proof (cases "conn_transport k \<noteq> ''tcp'' \<or> signature_scheme k \<noteq> ''hmac-sha256''")
    case True
    with refused started show ?thesis by auto
  next
    case False
    with bind_all_ok [of k h ?ps "[]" "()" bound'] bind started show ?thesis by auto
  qed
qed

text \<open>The configuration of an empty environment.\<close>

lemma config_default: "from_env (\<lambda>_. None) = Some \<lparr>iopub_capacity = 10000, hold_timeout = 3600 * 10 ^ 9\<rparr>"
  using half_even_of_int [of "3600 * 10 ^ 9"] by (simp add: from_env_def hold_seconds_def duration_from_secs_def)

definition demo_connection :: json where
  "demo_connection = JObj [(''transport'', JStr ''tcp''), (''ip'', JStr ''127.0.0.1''), (''shell_port'', jnat 1),
     (''iopub_port'', jnat 2), (''stdin_port'', jnat 3), (''control_port'', jnat 4), (''hb_port'', jnat 5),
     (''signature_scheme'', JStr ''hmac-sha256'')]"

definition demo_host :: host where
  "demo_host = \<lparr>ho_env = (\<lambda>_. None), ho_read = (\<lambda>_. Inr ''file''), ho_reject = (\<lambda>_. ''invalid''),
     ho_bind = (\<lambda>_ _. Inr ())\<rparr>"

definition demo_setup_services :: kernel_services where
  "demo_setup_services = demo_services\<lparr>ks_crates := demo_crates\<lparr>from_slice := (\<lambda>_. Inr demo_connection)\<rparr>\<rparr>"

definition demo_info :: connection_info where
  "demo_info = \<lparr>conn_transport = ''tcp'', conn_ip = ''127.0.0.1'', shell_port = 1, iopub_port = 2, stdin_port = 3,
     control_port = 4, hb_port = 5, conn_key = '''', signature_scheme = ''hmac-sha256''\<rparr>"

theorem setup_binds_witness:
  "\<exists>ks'. kernel_setup demo_host demo_setup_services (session_as_language demo_language) ''f'' =
     Some (Inr ks', map (\<lambda>p. ''127.0.0.1:'' @ show_nat (unat (p :: u16))) [1, 4, 2, 5, 3])"
proof -
  have read: "connection_read (ks_crates demo_setup_services) demo_host ''f'' = Inr demo_info"
    by (simp add: connection_read_def demo_setup_services_def demo_host_def demo_connection_def demo_info_def
        connection_fields_def field_once_def)
  have "fst (bind_all demo_host demo_info [shell_port demo_info, control_port demo_info, iopub_port demo_info,
      hb_port demo_info, stdin_port demo_info] []) = Inr ()" by code_simp
  then obtain bound where bind: "bind_all demo_host demo_info [shell_port demo_info, control_port demo_info,
      iopub_port demo_info, hb_port demo_info, stdin_port demo_info] [] = (Inr (), bound)" by (metis prod.collapse)
  have "lang_set_debug_sender demo_language 0 = Inr ()" "\<And>ctx. lang_set_kernel_context demo_language 1 ctx = Inr ()"
    by (simp_all add: demo_language_def default_session_def)
  moreover have "from_env (ho_env demo_host) \<noteq> None"
    using config_default by (simp add: demo_host_def)
  ultimately obtain ks' where run:
    "kernel_setup demo_host demo_setup_services (session_as_language demo_language) ''f'' = Some (Inr ks', bound)"
    unfolding kernel_setup_def read sum.case bind by (auto simp: session_as_language_def Let_def)
  with setup_binds [OF read run] show ?thesis by (simp add: demo_info_def)
qed

end
