(* ===== verification/Dap.thy ===== *)
theory Dap
  imports Effects Text
begin

text \<open>
  The client of the debug adapter protocol (\<open>src/src/dap.rs\<close>): the framing of
  messages, sequence numbers, the requests that wait for a response, and what closing the
  connection does to them.

  A request is named by a ticket, which stands for its \<open>oneshot\<close> channel: the answers
  that were sent into the channels and the receivers that were closed are recorded. The
  sockets are parameters: the bytes read are an input, and whether a frame is taken or
  written is an input of the step.
\<close>

section \<open>Framing\<close>

definition crlf :: string where
  "crlf = [CHR 0x0D, CHR 0x0A]"

definition encode_message :: "crates \<Rightarrow> json \<Rightarrow> bytes result" where
  "encode_message c v =
     (case to_vec c v of
        Inl e \<Rightarrow> Inl (from_json e)
      | Inr payload \<Rightarrow> Inr (''Content-Length: '' @ show_nat (length payload) @ crlf @ crlf @ payload))"

text \<open>\<open>read_line\<close> on a stream that holds these bytes and then ends.\<close>

fun read_line :: "bytes \<Rightarrow> bytes \<times> bytes" where
  "read_line [] = ([], [])"
| "read_line (b # bs) =
     (if b = CHR 0x0A then ([b], bs) else (let (l, r) = read_line bs in (b # l, r)))"

lemma read_line_length: "length (snd (read_line bs)) \<le> length bs"
  by (induction bs) (auto simp: Let_def split: prod.splits)

lemma read_line_shorter: "read_line bs = (l, r) \<Longrightarrow> l \<noteq> [] \<Longrightarrow> length r < length bs"
  using read_line_length [of "tl bs"] by (cases bs) (auto split: if_splits prod.splits)

function read_headers :: "nat option \<Rightarrow> bytes \<Rightarrow> nat option result \<times> bytes" where
  "read_headers content_length bs =
     (let (line, rest) = read_line bs in
      if line = [] then (Inl (closed ''DAP connection''), rest)
      else if \<not> is_utf8 line then (Inl (from_io None ''stream did not contain valid UTF-8''), rest)
      else if line = crlf then (Inr content_length, rest)
      else case strip_prefix ''Content-Length:'' line of
        Some v \<Rightarrow>
          (case parse_usize (trim v) of
             Some n \<Rightarrow> read_headers (Some n) rest
           | None \<Rightarrow> (Inl (caused_by (error_new Protocol ''invalid DAP Content-Length'')
                        (OtherCause (parse_int_error (trim v)))), rest))
      | None \<Rightarrow> read_headers content_length rest)"
  by pat_completeness auto
termination
  by (relation "measure (\<lambda>(_, bs). length bs)") (auto dest!: read_line_shorter [OF sym])

declare read_headers.simps [simp del]

text \<open>
  A message and the bytes after it. \<open>None\<close> is the panic of \<open>vec!\<close> at a length
  that no allocation can have.
\<close>

definition read_message :: "crates \<Rightarrow> bytes \<Rightarrow> (json result \<times> bytes) option" where
  "read_message c bs =
     (case read_headers None bs of
        (Inl e, rest) \<Rightarrow> Some (Inl e, rest)
      | (Inr None, rest) \<Rightarrow> Some (Inl (error_new Protocol ''DAP message has no Content-Length''), rest)
      | (Inr (Some n), rest) \<Rightarrow>
          if n \<ge> 2 ^ 63 then None
          else if length rest < n then Some (Inl (from_io None ''early eof''), [])
          else (case from_slice c (take n rest) of
             Inl e \<Rightarrow> Some (Inl (caused_by (error_new Protocol ''invalid DAP JSON'') (OtherCause e)), drop n rest)
           | Inr v \<Rightarrow> Some (Inr v, drop n rest)))"

section \<open>State\<close>

text \<open>
  \<open>dap_sending\<close> holds the requests whose \<open>send\<close> has registered them and not yet
  looked again whether the connection is closed, \<open>dap_handing\<close> those whose
  \<open>send\<close> has looked and waits for the writer's channel, which has 64 places. \<open>dap_issued\<close>, \<open>dap_used\<close> and
  \<open>dap_wrapped\<close> record, for the statements, the tickets so far, the sequence numbers
  used and whether the counter ever passed its maximum.
\<close>

record dap =
  next_seq :: u64
  dap_pending :: "(u64, nat) hash_map"
  dap_close :: "error option"
  dap_sending :: "(nat \<times> u64 \<times> bytes) list"
  dap_handing :: "(nat \<times> u64 \<times> bytes) list"
  dap_outgoing :: "bytes list"
  dap_answers :: "(nat \<times> json result) list"
  dap_dropped :: "nat list"
  dap_events :: "json list"
  dap_issued :: nat
  dap_used :: "u64 list"
  dap_wrapped :: bool

definition dap_connect :: dap where
  "dap_connect = \<lparr>next_seq = 1, dap_pending = [], dap_close = None, dap_sending = [], dap_handing = [],
     dap_outgoing = [], dap_answers = [], dap_dropped = [], dap_events = [], dap_issued = 0, dap_used = [], dap_wrapped = False\<rparr>"

section \<open>Operations\<close>

text \<open>\<open>fetch_add\<close> wraps.\<close>

definition next_sequence :: "dap \<Rightarrow> u64 \<times> dap" where
  "next_sequence s = (next_seq s, s\<lparr>next_seq := next_seq s + 1, dap_wrapped := (dap_wrapped s \<or> next_seq s = - 1)\<rparr>)"

text \<open>The sequence number of a request and the request with it filled in.\<close>

definition request_sequence :: "json \<Rightarrow> dap \<Rightarrow> (u64 \<times> json) result \<times> dap" where
  "request_sequence v s =
     (case v of
        JObj m \<Rightarrow>
          (let (seq, m', s') =
             (case Option.bind (map_of m ''seq'') as_u64 of
                Some q \<Rightarrow> if 0 < q then (q, m, s)
                  else (let (q, s') = next_sequence s in (q, obj_insert ''seq'' (jnat q) m, s'))
              | None \<Rightarrow> (let (q, s') = next_sequence s in (q, obj_insert ''seq'' (jnat q) m, s')))
           in if seq = - 1 then (Inl (error_new InvalidInput ''DAP request sequence is too large''), s')
              else (Inr (seq, JObj m'), s'\<lparr>next_seq := max (next_seq s') (seq + 1)\<rparr>))
      | _ \<Rightarrow> (Inl (error_new InvalidInput ''DAP request must be an object''), s))"

text \<open>
  \<open>send\<close> up to the registration of its request. The check whether the connection is
  closed is \<open>dap_check\<close>; others may run between it and the rest.
\<close>

definition dap_check :: "dap \<Rightarrow> unit result" where
  "dap_check s = (case dap_close s of Some e \<Rightarrow> Inl e | None \<Rightarrow> Inr ())"

definition dap_register :: "crates \<Rightarrow> json \<Rightarrow> dap \<Rightarrow> nat result \<times> dap" where
  "dap_register c v s =
     (case request_sequence v s of
        (Inl e, s') \<Rightarrow> (Inl e, s')
      | (Inr (seq, v'), s') \<Rightarrow>
          (case encode_message c v' of
             Inl e \<Rightarrow> (Inl e, s')
           | Inr frame \<Rightarrow>
               if hm_contains_key (dap_pending s') seq
               then (Inl (error_new InvalidInput (''DAP request '' @ show_nat (unat seq) @ '' is already pending'')), s')
               else (Inr (dap_issued s'),
                     s'\<lparr>dap_pending := hm_insert seq (dap_issued s') (dap_pending s'),
                        dap_sending := dap_sending s' @ [(dap_issued s', seq, frame)],
                        dap_issued := Suc (dap_issued s'), dap_used := dap_used s' @ [seq]\<rparr>)))"

text \<open>\<open>Drop\<close> of a request: the entry goes only if its own receiver is the closed one.\<close>

definition drop_request :: "nat \<Rightarrow> u64 \<Rightarrow> dap \<Rightarrow> dap" where
  "drop_request t seq s =
     (let dropped = t # dap_dropped s in
      s\<lparr>dap_dropped := dropped,
        dap_pending := (case hm_get (dap_pending s) seq of
            Some u \<Rightarrow> if u \<in> set dropped then hm_remove seq (dap_pending s) else dap_pending s
          | None \<Rightarrow> dap_pending s)\<rparr>)"

text \<open>
  The rest of \<open>send\<close>: the second look at the close, and the channel of the writer,
  which takes the frame when it has a place and refuses it when the writer has ended. An
  error drops the request.
\<close>

definition dap_recheck :: "nat \<times> u64 \<times> bytes \<Rightarrow> dap \<Rightarrow> unit result \<times> dap" where
  "dap_recheck x s =
     (case x of (t, seq, frame) \<Rightarrow>
      let s' = s\<lparr>dap_sending := remove1 x (dap_sending s)\<rparr> in
      case dap_close s' of
        Some e \<Rightarrow> (Inl e, drop_request t seq s')
      | None \<Rightarrow> (Inr (), s'\<lparr>dap_handing := dap_handing s' @ [x]\<rparr>))"

definition dap_hand :: "bool \<Rightarrow> nat \<times> u64 \<times> bytes \<Rightarrow> dap \<Rightarrow> unit result \<times> dap" where
  "dap_hand taken x s =
     (case x of (t, seq, frame) \<Rightarrow>
      let s' = s\<lparr>dap_handing := remove1 x (dap_handing s)\<rparr> in
      if taken then (Inr (), s'\<lparr>dap_outgoing := dap_outgoing s' @ [frame]\<rparr>)
      else (Inl (case dap_close s' of Some e \<Rightarrow> e | None \<Rightarrow> closed ''DAP connection''), drop_request t seq s'))"

text \<open>A \<open>DapRequest\<close> dropped by its owner, or with the \<open>send\<close> that holds it.\<close>

definition dap_cancel :: "nat \<Rightarrow> u64 \<Rightarrow> dap \<Rightarrow> dap" where
  "dap_cancel t seq s =
     drop_request t seq (s\<lparr>dap_sending := filter (\<lambda>x. fst x \<noteq> t) (dap_sending s),
       dap_handing := filter (\<lambda>x. fst x \<noteq> t) (dap_handing s)\<rparr>)"

definition fail_pending :: "error \<Rightarrow> dap \<Rightarrow> dap" where
  "fail_pending e s =
     (let reason = (case dap_close s of Some r \<Rightarrow> r | None \<Rightarrow> e) in
      s\<lparr>dap_close := Some reason, dap_pending := [],
        dap_answers := dap_answers s @ map (\<lambda>(_, t). (t, Inl reason)) (dap_pending s)\<rparr>)"

text \<open>What \<open>read_messages\<close> does with a message.\<close>

definition receive_message :: "json \<Rightarrow> dap \<Rightarrow> dap" where
  "receive_message v s =
     (if Option.bind (json_get v ''type'') as_str = Some ''event''
      then s\<lparr>dap_events := dap_events s @ [v]\<rparr>
      else case Option.bind (json_get v ''request_seq'') as_u64 of
        None \<Rightarrow> s
      | Some seq \<Rightarrow>
          (case hm_get (dap_pending s) seq of
             None \<Rightarrow> s
           | Some t \<Rightarrow> s\<lparr>dap_pending := hm_remove seq (dap_pending s), dap_answers := dap_answers s @ [(t, Inr v)]\<rparr>))"

text \<open>\<open>DapRequest::wait\<close>: the answer, the loss of the sender, or the timeout.\<close>

datatype wait_end = AnswerSent "json result" | SenderLost string | Elapsed string

definition wait_answer :: "u64 \<Rightarrow> wait_end \<Rightarrow> json result" where
  "wait_answer seq x =
     (case x of
        AnswerSent r \<Rightarrow> r
      | SenderLost t \<Rightarrow> Inl (caused_by (closed ''DAP connection'') (OtherCause t))
      | Elapsed t \<Rightarrow> Inl (caused_by (error_new TimedOut (''waiting for DAP request '' @ show_nat (unat seq))) (OtherCause t)))"

lemma read_headers_shorter: "read_headers k bs = (Inr n, rest) \<Longrightarrow> length rest < length bs"
proof (induction k bs arbitrary: n rest rule: read_headers.induct)
  case (1 k bs)
  obtain l r where line: "read_line bs = (l, r)" by fastforce
  show ?case
  proof (cases "l = []")
    case True
    with 1(3) line show ?thesis by (subst (asm) read_headers.simps) simp
  next
    case False
    note shorter = read_line_shorter [OF line False]
    from 1(3) line False consider "rest = r" | "read_headers k r = (Inr n, rest)"
        "is_utf8 l" "l \<noteq> crlf" "strip_prefix ''Content-Length:'' l = None"
      | v m where "read_headers (Some m) r = (Inr n, rest)" "is_utf8 l" "l \<noteq> crlf"
          "strip_prefix ''Content-Length:'' l = Some v" "parse_usize (trim v) = Some m"
      by (subst (asm) read_headers.simps) (auto split: if_splits option.splits)
    then show ?thesis
    proof cases
      case 2
      with 1(1) [OF line [symmetric] refl False] shorter show ?thesis by fastforce
    next
      case (3 v m)
      with 1(2) [OF line [symmetric] refl False] shorter show ?thesis by fastforce
    qed (simp add: shorter)
  qed
qed

lemma read_message_shorter: "read_message c bs = Some (Inr v, rest) \<Longrightarrow> length rest < length bs"
  using read_headers_shorter [of None bs]
  by (fastforce simp: read_message_def split: prod.splits sum.splits option.splits if_splits)

text \<open>
  The reading task on the bytes of its connection, until an error or the close ends it: its
  error closes the connection. A panic of \<open>read_message\<close> ends it without a word.
\<close>

function read_messages :: "crates \<Rightarrow> bytes \<Rightarrow> dap \<Rightarrow> dap" where
  "read_messages c bs s =
     (if dap_close s \<noteq> None then fail_pending (closed ''DAP reader'') s
      else case read_message c bs of
        None \<Rightarrow> s
      | Some (Inl e, rest) \<Rightarrow> fail_pending e s
      | Some (Inr v, rest) \<Rightarrow> read_messages c rest (receive_message v s))"
  by pat_completeness auto
termination
  by (relation "measure (\<lambda>(_, bs, _). length bs)") (auto dest: read_message_shorter)

declare read_messages.simps [simp del]

text \<open>A turn of the writing task.\<close>

definition write_frame :: "(int option \<times> string) + unit \<Rightarrow> dap \<Rightarrow> dap" where
  "write_frame w s =
     (if dap_close s \<noteq> None then fail_pending (closed ''DAP writer'') s
      else case dap_outgoing s of
        [] \<Rightarrow> s
      | f # fs \<Rightarrow>
          (case w of
             Inr _ \<Rightarrow> s\<lparr>dap_outgoing := fs\<rparr>
           | Inl (errno, t) \<Rightarrow> fail_pending (from_io errno t) (s\<lparr>dap_outgoing := fs\<rparr>)))"

inductive dap_step :: "crates \<Rightarrow> dap \<Rightarrow> dap \<Rightarrow> bool" for c :: crates where
  register: "dap_register c v s = (r, s') \<Longrightarrow> dap_step c s s'"
| recheck: "x \<in> set (dap_sending s) \<Longrightarrow> dap_recheck x s = (r, s') \<Longrightarrow> dap_step c s s'"
| hand: "x \<in> set (dap_handing s) \<Longrightarrow> taken \<longrightarrow> length (dap_outgoing s) < 64 \<Longrightarrow> dap_hand taken x s = (r, s') \<Longrightarrow>
    dap_step c s s'"
| cancel: "t < dap_issued s \<Longrightarrow> dap_step c s (dap_cancel t (dap_used s ! t) s)"
| received: "dap_step c s (receive_message v s)"
| failed: "dap_step c s (fail_pending e s)"
| written: "dap_step c s (write_frame w s)"

definition dap_start :: "dap \<Rightarrow> bool" where
  "dap_start s \<longleftrightarrow> s = dap_connect"

section \<open>Lemmas on framing\<close>

lemma white_space_ends:
  "list_all (\<lambda>w. w \<noteq> [] \<and> \<not> is_digit (hd w) \<and> \<not> is_digit (last w)) white_space"
  by code_simp

lemma no_word_starts:
  assumes "list_all (\<lambda>w. w \<noteq> [] \<and> \<not> is_digit (hd w)) ws" and "is_digit d"
  shows "List.find (\<lambda>w. starts_with (d # s) w) ws = None"
  using assms by (auto simp: find_None_iff list_all_iff starts_with_iff Cons_eq_append_conv)

lemma strip_words_digits:
  assumes "list_all (\<lambda>w. w \<noteq> [] \<and> \<not> is_digit (hd w)) ws" and "is_digit d"
  shows "strip_words ws n (d # s) = d # s"
  by (cases n) (simp_all add: no_word_starts [OF assms])

lemma find_first_word:
  assumes "list_all (\<lambda>u. u \<noteq> [] \<and> hd u \<noteq> c) us"
  shows "List.find (\<lambda>v. starts_with (c # s) v) (us @ [c] # vs) = Some [c]"
  using assms by (induction us) (auto simp: starts_with_iff Cons_eq_append_conv)

lemma white_space_words:
  "white_space = take 5 white_space @ [CHR '' ''] # drop 6 white_space"
  "map rev white_space = take 1 (map rev white_space) @ [CHR 0x0A] # drop 2 (map rev white_space)"
  "map rev white_space = take 4 (map rev white_space) @ [CHR 0x0D] # drop 5 (map rev white_space)"
  by code_simp+

lemma find_white_space:
  "List.find (\<lambda>v. starts_with (CHR '' '' # s) v) white_space = Some [CHR '' '']"
  "List.find (\<lambda>v. starts_with (CHR 0x0A # s) v) (map rev white_space) = Some [CHR 0x0A]"
  "List.find (\<lambda>v. starts_with (CHR 0x0D # s) v) (map rev white_space) = Some [CHR 0x0D]"
proof -
  have "list_all (\<lambda>u. u \<noteq> [] \<and> hd u \<noteq> CHR '' '') (take 5 white_space)"
    "list_all (\<lambda>u. u \<noteq> [] \<and> hd u \<noteq> CHR 0x0A) (take 1 (map rev white_space))"
    "list_all (\<lambda>u. u \<noteq> [] \<and> hd u \<noteq> CHR 0x0D) (take 4 (map rev white_space))" by code_simp+
  from this [THEN find_first_word] white_space_words show
    "List.find (\<lambda>v. starts_with (CHR '' '' # s) v) white_space = Some [CHR '' '']"
    "List.find (\<lambda>v. starts_with (CHR 0x0A # s) v) (map rev white_space) = Some [CHR 0x0A]"
    "List.find (\<lambda>v. starts_with (CHR 0x0D # s) v) (map rev white_space) = Some [CHR 0x0D]"
    by metis+
qed

lemma trim_number:
  assumes "list_all is_digit ds" and "ds \<noteq> []"
  shows "trim ('' '' @ ds @ crlf) = ds"
proof -
  let ?ws = "map rev white_space"
  obtain d es where ds: "ds = d # es" using assms(2) by (cases ds) auto
  obtain e fs where rev: "rev ds = e # fs" using assms(2) by (cases "rev ds") auto
  have digits: "is_digit d" "is_digit e"
    using assms(1) ds arg_cong [OF rev, of set] by (auto simp: list_all_iff)
  have heads: "list_all (\<lambda>w. w \<noteq> [] \<and> \<not> is_digit (hd w)) white_space"
    "list_all (\<lambda>w. w \<noteq> [] \<and> \<not> is_digit (hd w)) ?ws"
    using white_space_ends by (simp_all add: list_all_iff hd_rev)
  have "strip_words white_space (Suc (length (ds @ crlf))) (CHR '' '' # ds @ crlf) = ds @ crlf"
    unfolding strip_words.simps(2) find_white_space(1) option.case ds
    using strip_words_digits [OF heads(1) digits(1)] by (simp del: strip_words.simps)
  moreover have "strip_words ?ws (length (ds @ crlf)) (rev (ds @ crlf)) = rev ds"
  proof -
    have parts: "length (ds @ crlf) = Suc (Suc (length ds))"
      "rev (ds @ crlf) = CHR 0x0A # CHR 0x0D # rev ds" by (simp_all add: crlf_def)
    have "strip_words ?ws (length ds) (rev ds) = rev ds"
      unfolding rev by (rule strip_words_digits [OF heads(2) digits(2)])
    then show ?thesis unfolding parts strip_words.simps(2) find_white_space(2) option.case
      by (simp add: find_white_space(3) del: strip_words.simps)
  qed
  ultimately show ?thesis by (simp add: trim_def Let_def)
qed

lemma is_utf8_ascii: "list_all (\<lambda>c. byte_in 0 0x7F c) s \<Longrightarrow> is_utf8 s"
  by (induction s) (auto simp: utf8_valid_def utf8_width_def Let_def)

lemma read_line_upto:
  "CHR 0x0A \<notin> set xs \<Longrightarrow>
   read_line (xs @ CHR 0x0A # rest) = (xs @ [CHR 0x0A], rest)"
  by (induction xs) auto

lemma show_nat_ascii:
  "list_all (\<lambda>c. byte_in 0 0x7F c) (show_nat n)" "CHR 0x0A \<notin> set (show_nat n)"
proof -
  have digits: "48 \<le> (of_char c :: nat) \<and> (of_char c :: nat) \<le> 57" if "c \<in> set (show_nat n)" for c
    using show_nat_digits [of n] that by (simp add: list_all_iff is_digit_def)
  show "list_all (\<lambda>c. byte_in 0 0x7F c) (show_nat n)"
    unfolding list_all_iff byte_in_def using digits by force
  show "CHR 0x0A \<notin> set (show_nat n)"
    using digits [of "CHR 0x0A"] by auto
qed

lemma header_ascii:
  "list_all (\<lambda>c. byte_in 0 0x7F c) ''Content-Length: ''" "CHR 0x0A \<notin> set ''Content-Length: ''"
  "list_all (\<lambda>c. byte_in 0 0x7F c) crlf" "CHR 0x0D \<noteq> CHR 0x0A"
  by (simp_all add: byte_in_def crlf_def)

lemma header_line:
  "read_line (''Content-Length: '' @ show_nat n @ crlf @ rest) = (''Content-Length: '' @ show_nat n @ crlf, rest)"
  "is_utf8 (''Content-Length: '' @ show_nat n @ crlf)" "''Content-Length: '' @ show_nat n @ crlf \<noteq> crlf"
  "strip_prefix ''Content-Length:'' (''Content-Length: '' @ show_nat n @ crlf) = Some ('' '' @ show_nat n @ crlf)"
proof -
  have "CHR 0x0A \<notin> set (''Content-Length: '' @ show_nat n @ [CHR 0x0D])"
    using header_ascii(2,4) show_nat_ascii(2) by simp
  from read_line_upto [OF this, of rest]
  show "read_line (''Content-Length: '' @ show_nat n @ crlf @ rest) = (''Content-Length: '' @ show_nat n @ crlf, rest)"
    by (simp only: crlf_def append_assoc append.simps)
  show "is_utf8 (''Content-Length: '' @ show_nat n @ crlf)"
    using header_ascii(1,3) show_nat_ascii(1) by (intro is_utf8_ascii) (simp only: list_all_append simp_thms)
qed (simp_all add: crlf_def)

lemma read_headers_encoded:
  assumes "n < 2 ^ 64"
  shows "read_headers k (''Content-Length: '' @ show_nat n @ crlf @ crlf @ rest) = (Inr (Some n), rest)"
proof -
  have number: "parse_usize (trim ('' '' @ show_nat n @ crlf)) = Some n"
    using show_nat_digits [of n] by (subst trim_number) (auto simp: parse_usize_show [OF assms])
  have "is_utf8 crlf" by (rule is_utf8_ascii, rule header_ascii)
  moreover have "read_line (crlf @ rest) = (crlf, rest)" by (simp add: crlf_def)
  ultimately have blank: "read_headers (Some n) (crlf @ rest) = (Inr (Some n), rest)"
    by (subst read_headers.simps) (simp add: crlf_def)
  have "read_headers k (''Content-Length: '' @ show_nat n @ crlf @ crlf @ rest) = read_headers (Some n) (crlf @ rest)"
    by (subst read_headers.simps, unfold header_line(1) Let_def prod.case header_line(4) option.case number)
      (simp add: header_line(2,3) [simplified])
  with blank show ?thesis by simp
qed

lemma read_message_encoded:
  assumes "encode_message c v = Inr frame" and "to_vec c v = Inr payload" and "from_slice c payload = Inr v"
    and "length payload < 2 ^ 63"
  shows "read_message c (frame @ rest) = Some (Inr v, rest)"
proof -
  have "frame = ''Content-Length: '' @ show_nat (length payload) @ crlf @ crlf @ payload"
    using assms(1,2) by (simp add: encode_message_def)
  moreover have "length payload < 2 ^ 64" using assms(4) by simp
  ultimately have "read_headers None (frame @ rest) = (Inr (Some (length payload)), payload @ rest)"
    using read_headers_encoded [of "length payload" None "payload @ rest"] by simp
  with assms(3,4) show ?thesis by (simp add: read_message_def)
qed

lemma read_message_end: "read_message c [] = Some (Inl (closed ''DAP connection''), [])"
  by (simp add: read_message_def read_headers.simps)

lemma receive_message_close [simp]: "dap_close (receive_message v s) = dap_close s"
  by (simp add: receive_message_def split: option.split)

section \<open>Requests and answers\<close>

definition request_seq :: "json \<Rightarrow> u64 option" where
  "request_seq v = Option.bind (json_get v ''request_seq'') as_u64"

text \<open>The tickets that still wait for an answer.\<close>

definition waiting :: "dap \<Rightarrow> nat set" where
  "waiting s = snd ` set (dap_pending s)"

text \<open>
  The tickets: a request that waits has its own number and no answer, no request has two
  answers, a response has the number of its request, and every request waits, has an answer
  or was dropped.
\<close>

definition tickets_ok :: "u64 list \<Rightarrow> (u64, nat) hash_map \<Rightarrow> (nat \<times> json result) list \<Rightarrow> nat list \<Rightarrow> bool" where
  "tickets_ok used pending answers dropped \<longleftrightarrow>
     hm_ok pending \<and>
     (\<forall>q t. (q, t) \<in> set pending \<longrightarrow> t < length used \<and> used ! t = q \<and> t \<notin> fst ` set answers \<and> t \<notin> set dropped) \<and>
     distinct (map fst answers) \<and>
     (\<forall>t v. (t, Inr v) \<in> set answers \<longrightarrow> request_seq v = Some (used ! t)) \<and>
     (\<forall>t \<in> fst ` set answers \<union> set dropped. t < length used) \<and>
     (\<forall>t < length used. t \<in> snd ` set pending \<or> t \<in> fst ` set answers \<or> t \<in> set dropped)"

definition sends_ok :: "u64 list \<Rightarrow> (nat \<times> u64 \<times> bytes) list \<Rightarrow> bool" where
  "sends_ok used xs \<longleftrightarrow> (\<forall>x \<in> set xs. fst x < length used \<and> used ! fst x = fst (snd x))"

definition dap_ok :: "dap \<Rightarrow> bool" where
  "dap_ok s \<longleftrightarrow>
     tickets_ok (dap_used s) (dap_pending s) (dap_answers s) (dap_dropped s) \<and>
     length (dap_used s) = dap_issued s \<and>
     sends_ok (dap_used s) (dap_sending s) \<and> sends_ok (dap_used s) (dap_handing s) \<and>
     (dap_close s \<noteq> None \<longrightarrow> waiting s \<subseteq> fst ` set (dap_sending s)) \<and>
     length (dap_outgoing s) \<le> 64 \<and>
     (\<not> dap_wrapped s \<longrightarrow> 0 < next_seq s \<and> (\<forall>q\<in>set (dap_used s). q < next_seq s))"

lemma hm_get_iff: "hm_ok m \<Longrightarrow> hm_get m k = Some v \<longleftrightarrow> (k, v) \<in> set m"
  by (simp add: hm_ok_def hm_get_def)

lemma set_hm_remove: "set (hm_remove k m) = {e \<in> set m. fst e \<noteq> k}"
  by (auto simp: hm_remove_def)

lemma word_less_succ: "q \<noteq> - 1 \<Longrightarrow> q < q + (1 :: u64)"
proof -
  assume "q \<noteq> - 1"
  then have "1 + q \<noteq> 0" by (metis add.commute eq_neg_iff_add_eq_0)
  then show ?thesis using unatSuc [of q] by (simp add: word_less_nat_alt add.commute)
qed

lemma request_sequence_spec:
  assumes "request_sequence v s = (r, s')"
  shows "s' = s\<lparr>next_seq := next_seq s', dap_wrapped := dap_wrapped s'\<rparr>"
    and "\<not> dap_wrapped s' \<Longrightarrow> \<not> dap_wrapped s \<and> next_seq s \<le> next_seq s'"
    and "\<not> dap_wrapped s' \<Longrightarrow> r = Inr (q, v') \<Longrightarrow> q < next_seq s'"
  using assms
  by (auto simp: request_sequence_def next_sequence_def Let_def max_def word_less_succ less_imp_le
      split: json.splits option.splits if_splits intro: less_trans [OF word_less_succ])

lemma dap_ok_sequence:
  assumes "dap_ok s" and "request_sequence v s = (r, s')"
  shows "dap_ok s'"
proof -
  note spec = request_sequence_spec [OF assms(2)]
  have "0 < next_seq s' \<and> (\<forall>q\<in>set (dap_used s). q < next_seq s')" if "\<not> dap_wrapped s'"
    using assms(1) spec(2) [OF that] by (auto simp: dap_ok_def intro: less_le_trans)
  with assms(1) show ?thesis
    by (subst spec(1)) (simp add: dap_ok_def waiting_def)
qed

lemma tickets_insert:
  assumes "tickets_ok used pending answers dropped" and "\<not> hm_contains_key pending q"
  shows "tickets_ok (used @ [q]) (hm_insert q (length used) pending) answers dropped"
    and "set (hm_insert q (length used) pending) = insert (q, length used) (set pending)"
proof -
  have remove: "hm_remove q pending = pending"
    using assms(2) by (force simp: hm_remove_def hm_contains_iff filter_id_conv)
  then show pending: "set (hm_insert q (length used) pending) = insert (q, length used) (set pending)"
    by (simp add: hm_insert_def)
  show "tickets_ok (used @ [q]) (hm_insert q (length used) pending) answers dropped"
    unfolding tickets_ok_def pending using assms(1)
    by (auto simp: tickets_ok_def nth_append less_Suc_eq dest: bspec intro: hm_ok_insert)
qed

lemma sends_append: "sends_ok used xs \<Longrightarrow> sends_ok (used @ [q]) xs"
  by (auto simp: sends_ok_def nth_append less_SucI)

lemma tickets_okI:
  assumes "hm_ok pending"
    and "\<And>q t. (q, t) \<in> set pending \<Longrightarrow> t < length used \<and> used ! t = q \<and> t \<notin> fst ` set answers \<and> t \<notin> set dropped"
    and "distinct (map fst answers)" and "\<And>t v. (t, Inr v) \<in> set answers \<Longrightarrow> request_seq v = Some (used ! t)"
    and "\<And>t. t \<in> fst ` set answers \<union> set dropped \<Longrightarrow> t < length used"
    and "\<And>t. t < length used \<Longrightarrow> t \<notin> fst ` set answers \<Longrightarrow> t \<notin> set dropped \<Longrightarrow> t \<in> snd ` set pending"
  shows "tickets_ok used pending answers dropped"
  using assms unfolding tickets_ok_def by blast

lemma tickets_answered:
  assumes "tickets_ok used pending answers dropped"
  shows "distinct (map fst answers)" and "(t, Inr v) \<in> set answers \<Longrightarrow> request_seq v = Some (used ! t)"
    and "t \<in> fst ` set answers \<union> set dropped \<Longrightarrow> t < length used" and "hm_ok pending"
  using assms unfolding tickets_ok_def by blast+

lemma tickets_entry:
  assumes "tickets_ok used pending answers dropped" and "(q, t) \<in> set pending"
  shows "t < length used" and "used ! t = q" and "t \<notin> fst ` set answers" and "t \<notin> set dropped"
  using assms unfolding tickets_ok_def by blast+

lemma tickets_key:
  assumes "tickets_ok used pending answers dropped" and "(q, t) \<in> set pending" and "(p, u) \<in> set pending"
  shows "u = t \<longleftrightarrow> p = q"
proof
  assume "p = q"
  moreover have "distinct (map fst pending)" using assms(1) by (simp add: tickets_ok_def hm_ok_def)
  ultimately show "u = t" using assms(2,3) by (simp add: eq_key_imp_eq_value)
qed (use tickets_entry(2) [OF assms(1,2)] tickets_entry(2) [OF assms(1,3)] in simp)

lemma tickets_cover:
  "tickets_ok used pending answers dropped \<Longrightarrow> t < length used \<Longrightarrow> t \<notin> fst ` set answers \<Longrightarrow> t \<notin> set dropped \<Longrightarrow>
   t \<in> snd ` set pending"
  unfolding tickets_ok_def by blast

lemma tickets_answer:
  assumes "tickets_ok used pending answers dropped" and "hm_get pending q = Some t" and "request_seq v = Some q"
  shows "tickets_ok used (hm_remove q pending) (answers @ [(t, Inr v)]) dropped"
proof -
  have ok: "hm_ok pending" using assms(1) by (simp add: tickets_ok_def)
  have entry: "(q, t) \<in> set pending" using assms(2) ok by (simp add: hm_get_iff)
  have rest: "set (hm_remove q pending) = {e \<in> set pending. snd e \<noteq> t}"
    using tickets_key [OF assms(1) entry] by (force simp: set_hm_remove)
  note entry = tickets_entry [OF assms(1) entry]
  show ?thesis
  proof (rule tickets_okI)
    show "u < length used \<and> used ! u = p \<and> u \<notin> fst ` set (answers @ [(t, Inr v)]) \<and> u \<notin> set dropped"
      if "(p, u) \<in> set (hm_remove q pending)" for p u
      using that tickets_entry [OF assms(1), of p u] by (simp add: rest)
    show "u \<in> snd ` set (hm_remove q pending)"
      if "u < length used" "u \<notin> fst ` set (answers @ [(t, Inr v)])" "u \<notin> set dropped" for u
      using that tickets_cover [OF assms(1), of u] unfolding rest by auto
    show "u < length used" if "u \<in> fst ` set (answers @ [(t, Inr v)]) \<union> set dropped" for u
      using that entry(1) tickets_answered(3) [OF assms(1), of u] by auto
  qed (use ok entry assms(3) tickets_answered [OF assms(1)] in auto)
qed

lemma tickets_fail:
  assumes "tickets_ok used pending answers dropped"
  shows "tickets_ok used [] (answers @ map (\<lambda>(_, t). (t, Inl e)) pending) dropped"
proof -
  have "inj_on snd (set pending)"
    using tickets_key [OF assms] by (auto simp: inj_on_def)
  moreover have "distinct pending" using assms by (auto simp: tickets_ok_def hm_ok_def distinct_map)
  ultimately have "distinct (map snd pending)" by (simp add: distinct_map)
  moreover have firsts: "map fst (map (\<lambda>(_, t). (t, Inl e :: json result)) pending) = map snd pending" by auto
  have tickets: "fst ` set (answers @ map (\<lambda>(_, t). (t, Inl e)) pending) = fst ` set answers \<union> snd ` set pending"
    using arg_cong [OF firsts, of set] by (simp only: set_map set_append image_Un)
  moreover have "u \<notin> fst ` set answers" if "u \<in> snd ` set pending" for u
    using that tickets_entry(3) [OF assms] by (metis imageE prod.collapse)
  ultimately have "distinct (map fst (answers @ map (\<lambda>(_, t). (t, Inl e)) pending))"
    unfolding map_append firsts using tickets_answered(1) [OF assms] by (auto simp del: image_iff)
  then show ?thesis
  proof (rule tickets_okI [rotated 2])
    show "u < length used" if "u \<in> fst ` set (answers @ map (\<lambda>(_, t). (t, Inl e)) pending) \<union> set dropped" for u
      using that tickets_answered(3) [OF assms, of u] tickets_entry(1) [OF assms, of _ u] unfolding tickets by auto
    show "u \<in> snd ` set []"
      if "u < length used" "u \<notin> fst ` set (answers @ map (\<lambda>(_, t). (t, Inl e)) pending)" "u \<notin> set dropped" for u
      using that(2) tickets_cover [OF assms that(1) _ that(3)] unfolding tickets by blast
  qed (use tickets_answered(2) [OF assms] in auto)
qed

lemma drop_request_simps [simp]:
  "dap_used (drop_request t q s) = dap_used s" "dap_answers (drop_request t q s) = dap_answers s"
  "dap_dropped (drop_request t q s) = t # dap_dropped s" "dap_close (drop_request t q s) = dap_close s"
  "dap_issued (drop_request t q s) = dap_issued s" "dap_sending (drop_request t q s) = dap_sending s"
  "dap_handing (drop_request t q s) = dap_handing s" "dap_outgoing (drop_request t q s) = dap_outgoing s"
  "dap_wrapped (drop_request t q s) = dap_wrapped s" "next_seq (drop_request t q s) = next_seq s"
  by (simp_all add: drop_request_def Let_def)

lemma drop_request_pending:
  assumes "tickets_ok (dap_used s) (dap_pending s) (dap_answers s) (dap_dropped s)"
    and "t < length (dap_used s)" and "dap_used s ! t = q"
  shows "set (dap_pending (drop_request t q s)) = {e \<in> set (dap_pending s). snd e \<noteq> t}"
    and "hm_ok (dap_pending (drop_request t q s))"
proof -
  have ok: "hm_ok (dap_pending s)" using assms(1) by (simp add: tickets_ok_def)
  have entry: "u \<notin> set (dap_dropped s) \<and> dap_used s ! u = p" if "(p, u) \<in> set (dap_pending s)" for p u
    using assms(1) that by (simp add: tickets_ok_def)
  show "set (dap_pending (drop_request t q s)) = {e \<in> set (dap_pending s). snd e \<noteq> t}"
  proof (cases "(q, t) \<in> set (dap_pending s)")
    case True
    then have "hm_get (dap_pending s) q = Some t" using ok by (simp add: hm_get_iff)
    then show ?thesis using tickets_key [OF assms(1) True] by (force simp: drop_request_def Let_def set_hm_remove)
  next
    case False
    then have "u \<noteq> t" if "(p, u) \<in> set (dap_pending s)" for p u
      using entry [OF that] assms(3) that by auto
    moreover have "u \<notin> set (dap_dropped s) \<and> u \<noteq> t" if "hm_get (dap_pending s) q = Some u" for u
      using entry False that ok by (auto simp: hm_get_iff)
    ultimately show ?thesis
      by (force simp: drop_request_def Let_def split: option.split)
  qed
  show "hm_ok (dap_pending (drop_request t q s))"
    using ok by (auto simp: drop_request_def Let_def split: option.split)
qed

lemma dap_ok_drop:
  assumes "dap_ok s" and "t < dap_issued s" and "dap_used s ! t = q"
    and "sends_ok (dap_used s) xs" and "sends_ok (dap_used s) ys"
    and "fst ` set (dap_sending s) \<subseteq> insert t (fst ` set xs)"
  shows "dap_ok (drop_request t q (s\<lparr>dap_sending := xs, dap_handing := ys\<rparr>))"
proof -
  let ?s = "s\<lparr>dap_sending := xs, dap_handing := ys\<rparr>"
  have tickets: "tickets_ok (dap_used ?s) (dap_pending ?s) (dap_answers ?s) (dap_dropped ?s)"
    and length: "t < length (dap_used ?s)" and number: "dap_used ?s ! t = q"
    using assms(1-3) by (simp_all add: dap_ok_def)
  note pending = drop_request_pending [OF tickets length number]
  have "tickets_ok (dap_used s) (dap_pending (drop_request t q ?s)) (dap_answers s) (t # dap_dropped s)"
  proof (rule tickets_okI)
    show "u < length (dap_used s) \<and> dap_used s ! u = p \<and> u \<notin> fst ` set (dap_answers s) \<and> u \<notin> set (t # dap_dropped s)"
      if "(p, u) \<in> set (dap_pending (drop_request t q ?s))" for p u
      using that tickets_entry [OF tickets, of p u] unfolding pending(1) by simp
    show "u \<in> snd ` set (dap_pending (drop_request t q ?s))"
      if "u < length (dap_used s)" "u \<notin> fst ` set (dap_answers s)" "u \<notin> set (t # dap_dropped s)" for u
      using that tickets_cover [OF tickets, of u] unfolding pending(1) by auto
  qed (use length pending(2) tickets_answered [OF tickets] in auto)
  moreover have "dap_close s \<noteq> None \<longrightarrow> waiting (drop_request t q ?s) \<subseteq> fst ` set xs"
  proof (intro impI)
    assume "dap_close s \<noteq> None"
    then have "waiting s \<subseteq> fst ` set (dap_sending s)" using assms(1) by (simp add: dap_ok_def)
    moreover have "waiting (drop_request t q ?s) \<subseteq> waiting s - {t}" unfolding waiting_def pending(1) by auto
    ultimately show "waiting (drop_request t q ?s) \<subseteq> fst ` set xs" using assms(6) by blast
  qed
  ultimately show ?thesis using assms by (simp add: dap_ok_def)
qed

lemma sends_subset: "sends_ok used xs \<Longrightarrow> set ys \<subseteq> set xs \<Longrightarrow> sends_ok used ys"
  by (auto simp: sends_ok_def)

lemma dap_register_cases:
  assumes "dap_register c v s = (r, s')"
  obtains x where "request_sequence v s = (x, s')" "\<forall>t. r \<noteq> Inr t"
  | q v' s1 f where "request_sequence v s = (Inr (q, v'), s1)" "\<not> hm_contains_key (dap_pending s1) q" "r = Inr (dap_issued s1)"
      "s' = s1\<lparr>dap_pending := hm_insert q (dap_issued s1) (dap_pending s1),
        dap_sending := dap_sending s1 @ [(dap_issued s1, q, f)], dap_issued := Suc (dap_issued s1), dap_used := dap_used s1 @ [q]\<rparr>"
proof -
  obtain x s1 where seq: "request_sequence v s = (x, s1)" by fastforce
  show ?thesis
  proof (cases x)
    case (Inl e)
    then show ?thesis using assms seq by (intro that(1) [of x]) (auto simp: dap_register_def)
  next
    case (Inr y)
    obtain q v' where y: "y = (q, v')" by (cases y)
    show ?thesis
    proof (cases "encode_message c v'")
      case (Inl e)
      then show ?thesis using assms seq by (intro that(1) [of x]) (auto simp: dap_register_def Inr y)
    next
      case frame: (Inr f)
      show ?thesis
      proof (cases "hm_contains_key (dap_pending s1) q")
        case True
        then show ?thesis using assms seq by (intro that(1) [of x]) (auto simp: dap_register_def Inr y frame)
      next
        case False
        show ?thesis
          by (rule that(2) [OF seq [unfolded Inr y] False, of f])
            (use assms in \<open>simp_all add: dap_register_def seq Inr y frame False\<close>)
      qed
    qed
  qed
qed

lemma dap_ok_register:
  assumes "dap_ok s" and "dap_register c v s = (r, s')"
  shows "dap_ok s'"
  using assms(2)
proof (cases rule: dap_register_cases)
  case (1 x)
  then show ?thesis using assms(1) by (simp add: dap_ok_sequence)
next
  case (2 q v' s1 f)
  have ok: "dap_ok s1" using assms(1) 2(1) by (rule dap_ok_sequence)
  have tickets: "tickets_ok (dap_used s1) (dap_pending s1) (dap_answers s1) (dap_dropped s1)"
    and issued: "dap_issued s1 = length (dap_used s1)" using ok by (simp_all add: dap_ok_def)
  note insert = tickets_insert [OF tickets 2(2)]
  have number: "\<not> dap_wrapped s1 \<longrightarrow> q < next_seq s1" using request_sequence_spec(3) [OF 2(1) _ refl] by simp
  have "sends_ok (dap_used s1 @ [q]) (dap_sending s1)" "sends_ok (dap_used s1 @ [q]) (dap_handing s1)"
    using ok by (simp_all add: dap_ok_def sends_append)
  then have sends: "sends_ok (dap_used s1 @ [q]) (dap_sending s1 @ [(length (dap_used s1), q, f)])"
    "sends_ok (dap_used s1 @ [q]) (dap_handing s1)"
    unfolding sends_ok_def by simp_all
  have close: "dap_close s1 \<noteq> None \<longrightarrow> waiting s' \<subseteq> fst ` set (dap_sending s')"
  proof
    assume "dap_close s1 \<noteq> None"
    then have "snd ` set (dap_pending s1) \<subseteq> fst ` set (dap_sending s1)" using ok by (simp add: dap_ok_def waiting_def)
    then show "waiting s' \<subseteq> fst ` set (dap_sending s')"
      unfolding 2(4) waiting_def issued by (simp add: insert(2)) blast
  qed
  have fields: "dap_used s' = dap_used s1 @ [q]" "dap_pending s' = hm_insert q (length (dap_used s1)) (dap_pending s1)"
    "dap_answers s' = dap_answers s1" "dap_dropped s' = dap_dropped s1" "dap_issued s' = Suc (dap_issued s1)"
    "dap_sending s' = dap_sending s1 @ [(length (dap_used s1), q, f)]" "dap_handing s' = dap_handing s1"
    "dap_close s' = dap_close s1" "dap_outgoing s' = dap_outgoing s1" "dap_wrapped s' = dap_wrapped s1"
    "next_seq s' = next_seq s1"
    by (simp_all add: 2(4) issued)
  have "length (dap_outgoing s1) \<le> 64"
    "\<not> dap_wrapped s1 \<longrightarrow> 0 < next_seq s1 \<and> (\<forall>q\<in>set (dap_used s1). q < next_seq s1)"
    using ok by (simp_all add: dap_ok_def)
  with insert(1) number sends close show ?thesis
    unfolding dap_ok_def fields by (auto simp: issued)
qed

lemma fst_remove1: "fst ` set xs \<subseteq> insert (fst x) (fst ` set (remove1 x xs))"
proof
  fix t assume "t \<in> fst ` set xs"
  then obtain y where "y \<in> set xs" "t = fst y" by blast
  then show "t \<in> insert (fst x) (fst ` set (remove1 x xs))" by (cases "y = x") auto
qed

lemma dap_ok_recheck:
  assumes "dap_ok s" and "x \<in> set (dap_sending s)" and "dap_recheck x s = (r, s')"
  shows "dap_ok s'"
proof -
  obtain t q f where x: "x = (t, q, f)" by (cases x)
  have sends: "sends_ok (dap_used s) (dap_sending s)" "sends_ok (dap_used s) (dap_handing s)" using assms(1) by (simp_all add: dap_ok_def)
  have number: "t < dap_issued s" "dap_used s ! t = q" using sends(1) assms(1,2) unfolding x by (auto simp: sends_ok_def dap_ok_def)
  have rest: "sends_ok (dap_used s) (remove1 x (dap_sending s))"
    by (rule sends_subset [OF sends(1) set_remove1_subset])
  show ?thesis
  proof (cases "dap_close s")
    case None
    have "sends_ok (dap_used s) (dap_handing s @ [x])" using sends assms(2) by (auto simp: sends_ok_def)
    moreover have "s' = s\<lparr>dap_sending := remove1 x (dap_sending s), dap_handing := dap_handing s @ [x]\<rparr>"
      using assms(3) None by (simp add: dap_recheck_def x)
    ultimately show ?thesis using assms(1) rest None by (simp add: dap_ok_def)
  next
    case (Some e)
    have "s' = drop_request t q (s\<lparr>dap_sending := remove1 x (dap_sending s), dap_handing := dap_handing s\<rparr>)"
      using assms(3) Some by (simp add: dap_recheck_def x)
    then show ?thesis
      using dap_ok_drop [OF assms(1) number rest sends(2)] fst_remove1 [of "dap_sending s" x] x by simp
  qed
qed

lemma dap_ok_hand:
  assumes "dap_ok s" and "x \<in> set (dap_handing s)" and "taken \<longrightarrow> length (dap_outgoing s) < 64"
    and "dap_hand taken x s = (r, s')"
  shows "dap_ok s'"
proof -
  obtain t q f where x: "x = (t, q, f)" by (cases x)
  have sends: "sends_ok (dap_used s) (dap_sending s)" "sends_ok (dap_used s) (dap_handing s)" using assms(1) by (simp_all add: dap_ok_def)
  have number: "t < dap_issued s" "dap_used s ! t = q" using sends(2) assms(1,2) unfolding x by (auto simp: sends_ok_def dap_ok_def)
  have rest: "sends_ok (dap_used s) (remove1 x (dap_handing s))"
    by (rule sends_subset [OF sends(2) set_remove1_subset])
  show ?thesis
  proof (cases taken)
    case True
    then have "s' = s\<lparr>dap_handing := remove1 x (dap_handing s), dap_outgoing := dap_outgoing s @ [f]\<rparr>"
      using assms(4) by (simp add: dap_hand_def x)
    then show ?thesis using assms(1,3) rest True by (simp add: dap_ok_def waiting_def)
  next
    case False
    then have "s' = drop_request t q (s\<lparr>dap_sending := dap_sending s, dap_handing := remove1 x (dap_handing s)\<rparr>)"
      using assms(4) by (simp add: dap_hand_def x)
    then show ?thesis using dap_ok_drop [OF assms(1) number sends(1) rest] by blast
  qed
qed

lemma dap_ok_cancel: "dap_ok s \<Longrightarrow> t < dap_issued s \<Longrightarrow> dap_ok (dap_cancel t (dap_used s ! t) s)"
  unfolding dap_cancel_def
proof (rule dap_ok_drop)
  assume "dap_ok s"
  then have "sends_ok (dap_used s) (dap_sending s)" "sends_ok (dap_used s) (dap_handing s)" by (simp_all add: dap_ok_def)
  then show "sends_ok (dap_used s) (filter (\<lambda>x. fst x \<noteq> t) (dap_sending s))"
    "sends_ok (dap_used s) (filter (\<lambda>x. fst x \<noteq> t) (dap_handing s))"
    by (auto intro: sends_subset)
  show "fst ` set (dap_sending s) \<subseteq> insert t (fst ` set (filter (\<lambda>x. fst x \<noteq> t) (dap_sending s)))" by auto
qed simp_all

lemma dap_ok_received: "dap_ok s \<Longrightarrow> dap_ok (receive_message v s)"
  using tickets_answer [of "dap_used s" "dap_pending s" "dap_answers s" "dap_dropped s" _ _ v]
  by (auto simp: receive_message_def dap_ok_def waiting_def set_hm_remove request_seq_def split: option.split)

lemma dap_ok_failed: "dap_ok s \<Longrightarrow> dap_ok (fail_pending e s)"
  by (simp add: fail_pending_def Let_def dap_ok_def waiting_def tickets_fail)

lemma dap_ok_outgoing: "dap_ok s \<Longrightarrow> length fs \<le> 64 \<Longrightarrow> dap_ok (s\<lparr>dap_outgoing := fs\<rparr>)"
  by (simp add: dap_ok_def waiting_def)

lemma dap_ok_written:
  assumes "dap_ok s"
  shows "dap_ok (write_frame w s)"
proof -
  have "length fs \<le> 64" if "dap_outgoing s = f # fs" for f fs
    using assms that by (simp add: dap_ok_def)
  with assms show ?thesis
    by (auto simp: write_frame_def dap_ok_failed dap_ok_outgoing split: list.split sum.split)
qed

interpretation da: inductive_invariant dap_start "dap_step c" dap_ok
proof
  show "dap_ok s" if "dap_start s" for s
    using that by (simp add: dap_start_def dap_connect_def dap_ok_def tickets_ok_def sends_ok_def waiting_def)
next
  fix s t assume "dap_ok s" and "dap_step c s t"
  from this(2,1) show "dap_ok t"
    by cases (auto intro: dap_ok_register dap_ok_recheck dap_ok_hand dap_ok_cancel dap_ok_received dap_ok_failed dap_ok_written)
qed

text \<open>
  C26. Every request of the debug adapter is settled once. In every state of the client, no
  request has two answers, a response goes to the request with its number, and once the
  connection is closed every request ever issued has an answer or was dropped, unless its
  own \<open>send\<close> still has to look at the close; the writer's channel keeps its bound.
\<close>

theorem dap_requests_settled:
  assumes "reachable dap_start (dap_step c) s"
  shows "distinct (map fst (dap_answers s)) \<and>
    (\<forall>t v. (t, Inr v) \<in> set (dap_answers s) \<longrightarrow> request_seq v = Some (dap_used s ! t)) \<and>
    (dap_close s \<noteq> None \<longrightarrow>
       (\<forall>t < dap_issued s. t \<in> fst ` set (dap_answers s) \<union> set (dap_dropped s) \<union> fst ` set (dap_sending s))) \<and>
    length (dap_outgoing s) \<le> 64"
proof -
  have ok: "dap_ok s" by (rule da.inv_reachable [OF assms])
  then have tickets: "tickets_ok (dap_used s) (dap_pending s) (dap_answers s) (dap_dropped s)"
    and issued: "length (dap_used s) = dap_issued s" and bound: "length (dap_outgoing s) \<le> 64"
    and close: "dap_close s \<noteq> None \<Longrightarrow> snd ` set (dap_pending s) \<subseteq> fst ` set (dap_sending s)"
    by (simp_all add: dap_ok_def waiting_def)
  have "t \<in> fst ` set (dap_answers s) \<union> set (dap_dropped s) \<union> fst ` set (dap_sending s)"
    if "dap_close s \<noteq> None" "t < dap_issued s" for t
    using tickets_cover [OF tickets, of t] close [OF that(1)] that(2) unfolding issued by blast
  then show ?thesis
    using tickets_answered(1,2) [OF tickets] bound by (intro conjI allI impI)
qed

text \<open>A run of the client: a request, its response, a second request, and the close.\<close>

definition demo_dap_request :: json where
  "demo_dap_request = JObj [(''command'', JStr ''x'')]"

definition demo_dap_response :: json where
  "demo_dap_response = JObj [(''request_seq'', jnat 1)]"

definition demo_dap_answered :: dap where
  "demo_dap_answered = receive_message demo_dap_response (snd (dap_register demo_crates demo_dap_request dap_connect))"

definition demo_dap_closed :: dap where
  "demo_dap_closed = fail_pending (closed ''DAP client'') (snd (dap_register demo_crates demo_dap_request demo_dap_answered))"

lemma reach_register:
  "reachable dap_start (dap_step c) s \<Longrightarrow> reachable dap_start (dap_step c) (snd (dap_register c v s))"
  by (erule reach_step, rule dap_step.register) (rule prod.collapse [symmetric])

lemma reach_received:
  "reachable dap_start (dap_step c) s \<Longrightarrow> reachable dap_start (dap_step c) (receive_message v s)"
  by (erule reach_step) (rule dap_step.received)

lemma reach_failed: "reachable dap_start (dap_step c) s \<Longrightarrow> reachable dap_start (dap_step c) (fail_pending e s)"
  by (erule reach_step) (rule dap_step.failed)

lemma demo_dap_reachable:
  "reachable dap_start (dap_step demo_crates) demo_dap_answered" "reachable dap_start (dap_step demo_crates) demo_dap_closed"
proof -
  have "reachable dap_start (dap_step demo_crates) dap_connect" by (rule reach_start) (simp add: dap_start_def)
  then show answered: "reachable dap_start (dap_step demo_crates) demo_dap_answered"
    unfolding demo_dap_answered_def by (intro reach_received reach_register)
  then show "reachable dap_start (dap_step demo_crates) demo_dap_closed"
    unfolding demo_dap_closed_def by (intro reach_failed reach_register)
qed

theorem dap_requests_settled_witness:
  "request_seq demo_dap_response = Some (dap_used demo_dap_closed ! 0) \<and>
   1 \<in> fst ` set (dap_answers demo_dap_closed) \<union> set (dap_dropped demo_dap_closed) \<union> fst ` set (dap_sending demo_dap_closed)"
proof -
  have "(0, Inr demo_dap_response) \<in> set (dap_answers demo_dap_closed)" "dap_issued demo_dap_closed = 2"
    "dap_close demo_dap_closed \<noteq> None" by code_simp+
  with dap_requests_settled [OF demo_dap_reachable(2)] show ?thesis by auto
qed

text \<open>
  A number that the client chooses itself is new. As long as the counter has not passed
  its maximum, a request that names no positive number is registered under a positive number
  that no earlier request had.
\<close>

theorem dap_sequence_fresh:
  assumes "reachable dap_start (dap_step c) s"
    and "case Option.bind (map_of m ''seq'') as_u64 of None \<Rightarrow> True | Some q \<Rightarrow> q = 0"
    and "dap_register c (JObj m) s = (Inr t, s')" and "\<not> dap_wrapped s'"
  shows "0 < dap_used s' ! t \<and> dap_used s' ! t \<notin> set (dap_used s) \<and> take t (dap_used s') = dap_used s"
  using assms(3)
proof (cases rule: dap_register_cases)
  case (2 q v' s1 f)
  have ok: "dap_ok s" by (rule da.inv_reachable [OF assms(1)])
  note spec = request_sequence_spec [OF 2(1)]
  have fields: "dap_used s1 = dap_used s" "dap_issued s1 = dap_issued s" by (subst spec(1), simp)+
  have "\<not> dap_wrapped s" "q = next_seq s"
    using spec(2) assms(2,4) 2 by (auto simp: request_sequence_def next_sequence_def Let_def split: option.splits if_splits)
  with ok have "0 < q" "q \<notin> set (dap_used s)" "dap_issued s = length (dap_used s)" by (auto simp: dap_ok_def)
  then show ?thesis using 2(3,4) fields by simp
qed (use assms(3) in simp)

theorem dap_sequence_fresh_witness:
  "dap_used (snd (dap_register demo_crates demo_dap_request demo_dap_answered)) ! 1 \<notin> set (dap_used demo_dap_answered)"
proof -
  have result: "dap_register demo_crates (JObj [(''command'', JStr ''x'')]) demo_dap_answered =
      (Inr 1, snd (dap_register demo_crates demo_dap_request demo_dap_answered))"
    by (rule prod_eqI) (unfold demo_dap_request_def [symmetric] snd_conv fst_conv, code_simp, rule refl)
  have "\<not> dap_wrapped (snd (dap_register demo_crates demo_dap_request demo_dap_answered))" by code_simp
  from dap_sequence_fresh [OF demo_dap_reachable(1) _ result this] show ?thesis by simp
qed

text \<open>
  The counter wraps. A client that names the number two below the maximum leaves the
  counter at the maximum; the next request that names none is refused and leaves it at zero,
  and the one after that is registered under zero.
\<close>

theorem dap_sequence_wraps:
  "next_seq (snd (request_sequence (JObj [(''seq'', jnat (- 2))]) s)) = - 1 \<and>
   request_sequence (JObj []) (s\<lparr>next_seq := - 1\<rparr>) =
     (Inl (error_new InvalidInput ''DAP request sequence is too large''), s\<lparr>next_seq := 0, dap_wrapped := True\<rparr>) \<and>
   fst (request_sequence (JObj []) (s\<lparr>next_seq := 0\<rparr>)) = Inr (0, JObj [(''seq'', jnat 0)])"
  by (simp add: request_sequence_def next_sequence_def Let_def max_def word_gt_0)

text \<open>
  C27. Messages survive the wire. When the adapter encodes messages the way the client does
  and the JSON crate reads back what it prints, the reading task handles exactly these
  messages, in order, and then closes the connection at the end of the stream.
\<close>

theorem dap_stream_read:
  assumes "dap_close s = None"
    and "list_all2 (\<lambda>v f. encode_message c v = Inr f) vs frames"
    and "\<And>v. v \<in> set vs \<Longrightarrow> \<exists>p. to_vec c v = Inr p \<and> from_slice c p = Inr v \<and> length p < 2 ^ 63"
  shows "read_messages c (concat frames) s = fail_pending (closed ''DAP connection'') (fold receive_message vs s)"
  using assms(2,1,3)
proof (induction arbitrary: s rule: list_all2_induct)
  case Nil
  then show ?case by (subst read_messages.simps) (simp add: read_message_end)
next
  case (Cons v vs f frames)
  from Cons.prems(2) [of v] obtain p where "to_vec c v = Inr p" "from_slice c p = Inr v" "length p < 2 ^ 63" by auto
  with Cons.hyps(1) have "read_message c (f @ concat frames) = Some (Inr v, concat frames)"
    by (rule read_message_encoded)
  with Cons.IH [of "receive_message v s"] Cons.prems show ?case
    by (subst read_messages.simps) simp
qed

theorem dap_stream_read_witness:
  "read_messages demo_crates (concat [''Content-Length: 2'' @ crlf @ crlf @ ''{}'', ''Content-Length: 4'' @ crlf @ crlf @ ''null'']) dap_connect =
     fail_pending (closed ''DAP connection'') (receive_message JNull (receive_message (JObj []) dap_connect))"
proof -
  have "encode_message demo_crates (JObj []) = Inr (''Content-Length: 2'' @ crlf @ crlf @ ''{}'')"
    "encode_message demo_crates JNull = Inr (''Content-Length: 4'' @ crlf @ crlf @ ''null'')" by code_simp+
  moreover have "\<exists>p. to_vec demo_crates v = Inr p \<and> from_slice demo_crates p = Inr v \<and> length p < 2 ^ 63"
    if "v \<in> set [JObj [], JNull]" for v using that by (auto simp: demo_crates_def)
  moreover have "dap_close dap_connect = None" by (simp add: dap_connect_def)
  ultimately show ?thesis
    using dap_stream_read [of dap_connect demo_crates "[JObj [], JNull]"
      "[''Content-Length: 2'' @ crlf @ crlf @ ''{}'', ''Content-Length: 4'' @ crlf @ crlf @ ''null'']"] by simp
qed

end
