(* ===== verification/User_Code.thy ===== *)
theory User_Code
  imports Language_Api
begin

text \<open>
  How the Python adapter delivers interrupts (\<open>src/py/src/python.rs\<close>, lines 76 to
  206 and 252 to 267): the state that \<open>user_code()\<close> blocks share, a request on the
  engine's thread, the delivery thread, the deferred cancel on the session's event loop, and
  the SIGINT handler.

  The state holds one session. Threads and executions are numbers. What Python and the
  operating system keep is part of it: the SIGINTs that wait for their handler, the delivery
  threads that were spawned, each with its execution and whether it calls a hook, the callbacks queued on the event loop, and the threads with an
  injected exception. Every section that holds the lock, or the GIL, is one step.
\<close>

section \<open>State\<close>

type_synonym u32 = "32 word"

record user_code =
  uc_thread :: "nat option"
  uc_depth :: u32
  uc_pending :: bool
  uc_woken :: bool

definition default_user_code :: user_code where
  "default_user_code = \<lparr>uc_thread = None, uc_depth = 0, uc_pending = False, uc_woken = False\<rparr>"

text \<open>How an interrupt reached the execution.\<close>

datatype interruption = AtEntry | Injected nat | Signalled | TaskCancelled nat | HookCalled

text \<open>
  \<open>ps_killing\<close> are the requests that have left the lock and not yet sent their
  SIGINT. \<open>ps_blocks\<close> holds the thread of every open block, the innermost first.
  \<open>ps_raised\<close> are the threads whose injected exception was raised.
  \<open>ps_mixed\<close>, \<open>ps_failed\<close>, \<open>ps_requests\<close> and
  \<open>ps_foreign\<close> record, for the statements, whether blocks of two threads ever
  overlapped, whether a SIGINT could not be sent, the requests so far, and the SIGINTs that
  came from elsewhere.
\<close>

record py_state =
  uc :: user_code
  ps_task :: nat
  ps_hook :: bool
  ps_done :: "nat list"
  ps_interrupted :: "nat list"
  ps_killing :: "nat list"
  ps_sigints :: nat
  ps_delivers :: "(nat \<times> bool) list"
  ps_cancels :: "nat list"
  ps_async :: "nat list"
  ps_blocks :: "nat list"
  ps_delivered :: "interruption list"
  ps_raised :: "nat list"
  ps_kernel_interrupts :: nat
  ps_mixed :: bool
  ps_failed :: bool
  ps_requests :: nat
  ps_foreign :: nat

definition py_initial :: py_state where
  "py_initial = \<lparr>uc = default_user_code, ps_task = 0, ps_hook = False, ps_done = [0], ps_interrupted = [], ps_killing = [],
     ps_sigints = 0, ps_delivers = [], ps_cancels = [], ps_async = [], ps_blocks = [], ps_delivered = [], ps_raised = [],
     ps_kernel_interrupts = 0, ps_mixed = False, ps_failed = False, ps_requests = 0, ps_foreign = 0\<rparr>"

section \<open>Operations\<close>

text \<open>On Unix; \<open>main\<close> is \<open>MAIN_THREAD\<close>.\<close>

definition signals :: "nat option \<Rightarrow> nat \<Rightarrow> bool" where
  "signals main thread \<longleftrightarrow> main = Some thread"

text \<open>
  \<open>Delivery::request\<close> up to the end of its lock, with the thread it then signals.
  Without one it spawns the delivery thread.
\<close>

definition delivery_request :: "nat option \<Rightarrow> nat \<Rightarrow> py_state \<Rightarrow> nat option \<times> py_state" where
  "delivery_request main task s =
     (let s = s\<lparr>ps_interrupted := List.insert task (ps_interrupted s)\<rparr> in
      if ps_hook s then (None, s\<lparr>ps_delivers := ps_delivers s @ [(task, True)]\<rparr>)
      else
        let to = (case uc_thread (uc s) of Some t \<Rightarrow> if signals main t then Some t else None | None \<Rightarrow> None);
            s = s\<lparr>uc := (uc s)\<lparr>uc_pending := True, uc_woken := (uc_woken (uc s) \<or> to \<noteq> None)\<rparr>,
                  ps_requests := Suc (ps_requests s)\<rparr>
        in case to of
             Some t \<Rightarrow> (Some t, s\<lparr>ps_killing := ps_killing s @ [task]\<rparr>)
           | None \<Rightarrow> (None, s\<lparr>ps_delivers := ps_delivers s @ [(task, False)]\<rparr>))"

text \<open>
  The rest of a request that signals: \<open>pthread_kill\<close> with its error, if any, then
  the delivery thread. A SIGINT that finds another one waiting may merge with it.
\<close>

definition delivery_signal :: "(int \<times> string) option \<Rightarrow> bool \<Rightarrow> nat \<Rightarrow> py_state \<Rightarrow> unit result \<times> py_state" where
  "delivery_signal err merges task s =
     (let s = s\<lparr>ps_killing := remove1 task (ps_killing s)\<rparr> in
      case err of
        Some (n, t) \<Rightarrow> (Inl (adapter (IoCause (Some n) t)), s\<lparr>ps_failed := True\<rparr>)
      | None \<Rightarrow>
          (Inr (), s\<lparr>ps_sigints := (if merges \<and> 0 < ps_sigints s then ps_sigints s else Suc (ps_sigints s)),
                     ps_delivers := ps_delivers s @ [(task, False)]\<rparr>))"

text \<open>
  \<open>Delivery::deliver\<close>. \<open>changed\<close> is what \<open>PyThreadState_SetAsyncExc\<close>
  returns; \<open>False\<close> is the Python error of this thread.
\<close>

definition delivery_deliver :: "nat option \<Rightarrow> bool \<Rightarrow> nat \<Rightarrow> nat \<Rightarrow> py_state \<Rightarrow> bool \<times> py_state" where
  "delivery_deliver main hook changed task s =
     (let s = s\<lparr>ps_delivers := remove1 (task, hook) (ps_delivers s)\<rparr> in
      if hook then (True, s\<lparr>ps_delivered := ps_delivered s @ [HookCalled]\<rparr>)
      else
        case uc_thread (uc s) of
          Some t \<Rightarrow>
            if uc_pending (uc s) \<and> \<not> signals main t
            then let s = s\<lparr>uc := (uc s)\<lparr>uc_pending := False\<rparr>\<rparr> in
                 if 1 < changed then (False, s)
                 else (True, s\<lparr>ps_async := (if changed = 0 then ps_async s else List.insert t (ps_async s)),
                               ps_delivered := ps_delivered s @ [Injected t], ps_cancels := ps_cancels s @ [task]\<rparr>)
            else (True, s\<lparr>ps_cancels := ps_cancels s @ [task]\<rparr>)
        | None \<Rightarrow> (True, s\<lparr>ps_cancels := ps_cancels s @ [task]\<rparr>))"

text \<open>\<open>DeferredCancel\<close>, called by the event loop.\<close>

definition deferred_cancel :: "nat \<Rightarrow> py_state \<Rightarrow> py_state" where
  "deferred_cancel task s =
     (let s = s\<lparr>ps_cancels := remove1 task (ps_cancels s)\<rparr> in
      if task \<in> set (ps_done s) then s
      else if uc_thread (uc s) = None \<and> uc_pending (uc s)
      then s\<lparr>uc := (uc s)\<lparr>uc_pending := False\<rparr>, ps_delivered := ps_delivered s @ [TaskCancelled task]\<rparr>
      else s)"

text \<open>
  \<open>ExecutionSink::started\<close>: the pending flag is cleared and the handler registered,
  which requests the interrupt at once if the token was requested before.
\<close>

definition sink_started :: "nat option \<Rightarrow> bool \<Rightarrow> nat \<Rightarrow> execution_interrupt \<Rightarrow> py_state \<Rightarrow>
    unit result \<times> execution_interrupt \<times> py_state" where
  "sink_started main hook task i s =
     (let s = s\<lparr>uc := (uc s)\<lparr>uc_pending := False\<rparr>, ps_task := task, ps_hook := hook\<rparr>;
          (r, i', called) = set_handler (\<lambda>_. Inr ()) task i
      in (r, i', if called = [] then s else snd (delivery_request main task s)))"

text \<open>\<open>__enter__\<close> on a thread; \<open>False\<close> is the \<open>KeyboardInterrupt\<close> it raises.\<close>

definition sink_enter :: "nat \<Rightarrow> py_state \<Rightarrow> bool \<times> py_state" where
  "sink_enter t s =
     (if uc_pending (uc s)
      then (False, s\<lparr>uc := (uc s)\<lparr>uc_pending := False\<rparr>, ps_delivered := ps_delivered s @ [AtEntry]\<rparr>)
      else (True, s\<lparr>uc := (uc s)\<lparr>uc_thread := (if uc_depth (uc s) = 0 then Some t else uc_thread (uc s)),
                                uc_depth := uc_depth (uc s) + 1\<rparr>,
                    ps_mixed := (ps_mixed s \<or> ps_blocks s \<noteq> [] \<and> uc_thread (uc s) \<noteq> Some t),
                    ps_blocks := t # ps_blocks s\<rparr>))"

text \<open>\<open>__exit__\<close> of an open block of a thread.\<close>

definition sink_exit :: "nat \<Rightarrow> py_state \<Rightarrow> py_state" where
  "sink_exit t s =
     (let s = s\<lparr>uc := (uc s)\<lparr>uc_depth := uc_depth (uc s) - 1\<rparr>, ps_blocks := remove1 t (ps_blocks s)\<rparr> in
      if 0 < uc_depth (uc s) then s
      else case uc_thread (uc s) of
        Some u \<Rightarrow> s\<lparr>uc := (uc s)\<lparr>uc_thread := None\<rparr>, ps_async := removeAll u (ps_async s)\<rparr>
      | None \<Rightarrow> s)"

text \<open>\<open>SignalRouter\<close>: what a handled SIGINT does.\<close>

datatype signal_effect = InterruptKernel | RaiseInterrupt | NoEffect

definition signal_router :: "user_code \<Rightarrow> signal_effect \<times> user_code" where
  "signal_router c =
     (if uc_woken c
      then let c = c\<lparr>uc_woken := False\<rparr> in
           if uc_thread c \<noteq> None \<and> uc_pending c then (RaiseInterrupt, c\<lparr>uc_pending := False\<rparr>) else (NoEffect, c)
      else (InterruptKernel, c))"

definition signal_handled :: "py_state \<Rightarrow> py_state" where
  "signal_handled s =
     (case signal_router (uc s) of (e, c) \<Rightarrow>
      let s = s\<lparr>uc := c, ps_sigints := ps_sigints s - 1\<rparr> in
      case e of
        InterruptKernel \<Rightarrow> s\<lparr>ps_kernel_interrupts := Suc (ps_kernel_interrupts s)\<rparr>
      | RaiseInterrupt \<Rightarrow> s\<lparr>ps_delivered := ps_delivered s @ [Signalled]\<rparr>
      | NoEffect \<Rightarrow> s)"

section \<open>Steps\<close>

text \<open>
  Executions of a session follow each other, and the engine requests an interrupt only of
  the current one. \<open>loop\<close> is the thread of the session's event loop: it runs a
  callback only while it is not inside a block itself. Only the session whose loop runs on
  the main thread runs user code there. A block is open on a live thread, so the injection
  finds exactly one, and no process nests \<open>2 ^ 32\<close> blocks.
\<close>

inductive py_step :: "nat option \<Rightarrow> nat \<Rightarrow> py_state \<Rightarrow> py_state \<Rightarrow> bool" for main :: "nat option" and loop :: nat where
  start: "ps_task s \<in> set (ps_done s) \<Longrightarrow> task \<notin> set (ps_done s) \<Longrightarrow>
    sink_started main hook task i s = (Inr (), i', s') \<Longrightarrow> py_step main loop s s'"
| request: "ps_task s \<notin> set (ps_done s) \<Longrightarrow> delivery_request main (ps_task s) s = (to, s') \<Longrightarrow> py_step main loop s s'"
| kill: "task \<in> set (ps_killing s) \<Longrightarrow> delivery_signal err merges task s = (r, s') \<Longrightarrow> py_step main loop s s'"
| deliver: "(task, hook) \<in> set (ps_delivers s) \<Longrightarrow> delivery_deliver main hook 1 task s = (r, s') \<Longrightarrow> py_step main loop s s'"
| cancel: "task \<in> set (ps_cancels s) \<Longrightarrow> loop \<notin> set (ps_blocks s) \<Longrightarrow> py_step main loop s (deferred_cancel task s)"
| enter: "signals main t \<longrightarrow> t = loop \<Longrightarrow> Suc (length (ps_blocks s)) < 2 ^ 32 \<Longrightarrow> sink_enter t s = (r, s') \<Longrightarrow>
    py_step main loop s s'"
| exit: "t \<in> set (ps_blocks s) \<Longrightarrow> py_step main loop s (sink_exit t s)"
| raised: "t \<in> set (ps_async s) \<Longrightarrow> py_step main loop s (s\<lparr>ps_async := removeAll t (ps_async s), ps_raised := ps_raised s @ [t]\<rparr>)"
| handled: "0 < ps_sigints s \<Longrightarrow> py_step main loop s (signal_handled s)"
| foreign: "py_step main loop s (s\<lparr>ps_sigints := Suc (ps_sigints s), ps_foreign := Suc (ps_foreign s)\<rparr>)"
| ended: "py_step main loop s (s\<lparr>ps_done := List.insert (ps_task s) (ps_done s)\<rparr>)"

definition py_start :: "py_state \<Rightarrow> bool" where
  "py_start s \<longleftrightarrow> s = py_initial"

section \<open>Invariant\<close>

text \<open>The thread and the depth describe the open blocks, and only their thread has an injected exception.\<close>

definition blocks_ok :: "nat option \<Rightarrow> nat \<Rightarrow> nat option \<Rightarrow> u32 \<Rightarrow> nat list \<Rightarrow> nat list \<Rightarrow> bool \<Rightarrow> bool" where
  "blocks_ok main loop thread depth blocks async mixed \<longleftrightarrow>
     depth = of_nat (length blocks) \<and> length blocks < 2 ^ 32 \<and> (thread = None \<longleftrightarrow> blocks = []) \<and>
     (\<forall>t. thread = Some t \<longrightarrow> signals main t \<longrightarrow> t = loop) \<and>
     (\<forall>t \<in> set async. thread = Some t) \<and>
     (\<not> mixed \<longrightarrow> (\<forall>t \<in> set blocks. thread = Some t))"

text \<open>The work that is left for the interrupt of an execution.\<close>

definition in_hand :: "nat option \<Rightarrow> nat \<Rightarrow> nat \<Rightarrow> nat list \<Rightarrow> (nat \<times> bool) list \<Rightarrow> nat list \<Rightarrow> nat option \<Rightarrow> bool" where
  "in_hand main loop task killing delivers cancels thread \<longleftrightarrow>
     task \<in> set killing \<or> (task, False) \<in> set delivers \<or>
     (task \<in> set cancels \<and> (thread = None \<or> thread = Some loop \<and> signals main loop))"

definition expected :: "py_state \<Rightarrow> bool" where
  "expected s \<longleftrightarrow> uc_pending (uc s) \<and> ps_task s \<notin> set (ps_done s) \<and> \<not> ps_failed s \<and> \<not> ps_mixed s"

definition taken :: "interruption list \<Rightarrow> bool \<Rightarrow> nat" where
  "taken delivered pending = length (filter (\<lambda>d. d \<noteq> HookCalled) delivered) + (if pending then 1 else 0)"

definition py_ok :: "nat option \<Rightarrow> nat \<Rightarrow> py_state \<Rightarrow> bool" where
  "py_ok main loop s \<longleftrightarrow>
     blocks_ok main loop (uc_thread (uc s)) (uc_depth (uc s)) (ps_blocks s) (ps_async s) (ps_mixed s) \<and>
     (expected s \<longrightarrow> in_hand main loop (ps_task s) (ps_killing s) (ps_delivers s) (ps_cancels s) (uc_thread (uc s))) \<and>
     taken (ps_delivered s) (uc_pending (uc s)) \<le> ps_requests s"

lemma taken_simps [simp]:
  "taken (ds @ [HookCalled]) p = taken ds p" "d \<noteq> HookCalled \<Longrightarrow> taken (ds @ [d]) p = Suc (taken ds p)"
  "taken ds True = Suc (taken ds False)"
  by (simp_all add: taken_def)

lemma taken_false: "taken ds False \<le> taken ds p"
  by (simp add: taken_def)

lemma of_nat_u32: "n < 2 ^ 32 \<Longrightarrow> of_nat n = (0 :: u32) \<longleftrightarrow> n = 0"
  using nat_dvd_not_less [of n "2 ^ 32"] by (cases "n = 0") (auto simp: word_of_nat_eq_0_iff)

lemma in_hand_intros:
  "task \<in> set ks \<Longrightarrow> in_hand main loop task ks ds cs th" "(task, False) \<in> set ds \<Longrightarrow> in_hand main loop task ks ds cs th"
  by (simp_all add: in_hand_def)

lemma in_hand_more:
  "in_hand main loop task ks ds cs th \<Longrightarrow> set ks \<subseteq> set ks' \<Longrightarrow> set ds \<subseteq> set ds' \<Longrightarrow> set cs \<subseteq> set cs' \<Longrightarrow>
   in_hand main loop task ks' ds' cs' th"
  unfolding in_hand_def by blast

lemma py_ok_request:
  assumes "py_ok main loop s" and "delivery_request main (ps_task s) s = (to, s')"
  shows "py_ok main loop s'"
proof -
  define to' where "to' = (case uc_thread (uc s) of Some t \<Rightarrow> if signals main t then Some t else None | None \<Rightarrow> None)"
  have "taken (ps_delivered s) True \<le> Suc (ps_requests s)"
    using assms(1) taken_false [of "ps_delivered s" "uc_pending (uc s)"] by (simp add: py_ok_def)
  then show ?thesis
    using assms unfolding delivery_request_def Let_def py_ok_def
    by (cases "ps_hook s"; cases to')
      (auto simp: to'_def [symmetric] expected_def in_hand_intros intro: in_hand_more)
qed

lemma py_ok_started:
  assumes "py_ok main loop s" and "sink_started main hook task i s = (r, i', s')"
  shows "py_ok main loop s'"
proof -
  let ?s = "s\<lparr>uc := (uc s)\<lparr>uc_pending := False\<rparr>, ps_task := task, ps_hook := hook\<rparr>"
  have ok: "py_ok main loop ?s"
    using assms(1) taken_false [of "ps_delivered s" "uc_pending (uc s)"] by (simp add: py_ok_def expected_def)
  obtain r0 i0 called where handler: "set_handler (\<lambda>_. Inr ()) task i = (r0, i0, called)" by (cases "set_handler (\<lambda>_. Inr ()) task i")
  have "s' = ?s \<or> s' = snd (delivery_request main (ps_task ?s) ?s)"
    using assms(2) by (cases "called = []") (simp_all add: sink_started_def Let_def handler)
  moreover have "py_ok main loop (snd (delivery_request main (ps_task ?s) ?s))"
    by (rule py_ok_request [OF ok]) (rule prod.collapse [symmetric])
  ultimately show ?thesis using ok by metis
qed

lemma py_ok_kill:
  assumes "py_ok main loop s" and "delivery_signal err merges task s = (r, s')"
  shows "py_ok main loop s'"
proof (cases err)
  case None
  have "in_hand main loop u (remove1 task ks) (ds @ [(task, False)]) cs th" if "in_hand main loop u ks ds cs th" for u ks ds cs th
    using that by (cases "u = task") (auto simp: in_hand_def)
  then show ?thesis using assms None by (auto simp: delivery_signal_def Let_def py_ok_def expected_def)
next
  case (Some e)
  then show ?thesis using assms by (auto simp: delivery_signal_def Let_def py_ok_def expected_def split: prod.splits)
qed

lemma py_ok_deliver:
  assumes ok: "py_ok main loop s" and run: "delivery_deliver main hook 1 task s = (r, s')"
  shows "py_ok main loop s'"
proof (cases hook)
  case True
  have "in_hand main loop u ks (remove1 (task, True) ds) cs th = in_hand main loop u ks ds cs th" for u ks ds cs th
    by (simp add: in_hand_def)
  with ok run True show ?thesis by (auto simp: delivery_deliver_def Let_def py_ok_def expected_def)
next
  case False
  consider (inject) t where "uc_thread (uc s) = Some t" "uc_pending (uc s)" "\<not> signals main t"
    | (post) "uc_thread (uc s) = None \<or> \<not> uc_pending (uc s) \<or> (\<exists>t. uc_thread (uc s) = Some t \<and> signals main t)"
    by (cases "uc_thread (uc s)") auto
  then show ?thesis
  proof cases
    case (inject t)
    have "blocks_ok main loop (Some t) d bs (List.insert t as) m" if "blocks_ok main loop (Some t) d bs as m" for d bs as m
      using that by (simp add: blocks_ok_def)
    with ok run False inject show ?thesis
      by (auto simp: delivery_deliver_def Let_def py_ok_def expected_def)
  next
    case post
    then have s': "s' = s\<lparr>ps_delivers := remove1 (task, False) (ps_delivers s), ps_cancels := ps_cancels s @ [task]\<rparr>"
      using run False by (auto simp: delivery_deliver_def Let_def split: option.splits)
    have "in_hand main loop u ks (remove1 (task, False) ds) (cs @ [task]) th"
      if "in_hand main loop u ks ds cs th" "th = None \<or> th = Some loop \<and> signals main loop" for u ks ds cs th
      using that by (cases "u = task") (auto simp: in_hand_def)
    moreover have "uc_thread (uc s) = None \<or> uc_thread (uc s) = Some loop \<and> signals main loop" if "uc_pending (uc s)"
      using post that ok by (auto simp: py_ok_def blocks_ok_def)
    ultimately show ?thesis using ok unfolding s' by (auto simp: py_ok_def expected_def)
  qed
qed

lemma py_ok_cancel:
  assumes ok: "py_ok main loop s" and idle: "loop \<notin> set (ps_blocks s)"
  shows "py_ok main loop (deferred_cancel task s)"
proof -
  consider (skip) "task \<in> set (ps_done s)" | (stay) "task \<notin> set (ps_done s)" "\<not> (uc_thread (uc s) = None \<and> uc_pending (uc s))"
    | (cancel) "task \<notin> set (ps_done s)" "uc_thread (uc s) = None" "uc_pending (uc s)" by blast
  then show ?thesis
  proof cases
    case skip
    have "in_hand main loop u ks ds (remove1 task cs) th" if "in_hand main loop u ks ds cs th" "u \<noteq> task" for u ks ds cs th
      using that by (simp add: in_hand_def)
    moreover have "ps_task s \<noteq> task" if "expected s" using that skip by (auto simp: expected_def)
    ultimately show ?thesis using ok skip by (auto simp: deferred_cancel_def Let_def py_ok_def expected_def)
  next
    case stay
    have "in_hand main loop u ks ds (remove1 task cs) th" if "in_hand main loop u ks ds cs th" "th \<noteq> None" "th \<noteq> Some loop" for u ks ds cs th
      using that by (auto simp: in_hand_def)
    moreover have "uc_thread (uc s) \<noteq> None" "uc_thread (uc s) \<noteq> Some loop" if exp: "expected s"
    proof -
      have ok': "blocks_ok main loop (uc_thread (uc s)) (uc_depth (uc s)) (ps_blocks s) (ps_async s) False"
        using ok exp by (simp add: py_ok_def expected_def)
      show some: "uc_thread (uc s) \<noteq> None" using stay(2) exp by (simp add: expected_def)
      then obtain b where "b \<in> set (ps_blocks s)" using ok' by (cases "ps_blocks s") (auto simp: blocks_ok_def)
      moreover from this ok' have "uc_thread (uc s) = Some b" by (simp add: blocks_ok_def)
      ultimately show "uc_thread (uc s) \<noteq> Some loop" using idle by auto
    qed
    moreover have "deferred_cancel task s = s\<lparr>ps_cancels := remove1 task (ps_cancels s)\<rparr>"
      using stay by (auto simp: deferred_cancel_def Let_def)
    ultimately show ?thesis using ok by (simp add: py_ok_def expected_def)
  next
    case cancel
    with ok show ?thesis by (auto simp: deferred_cancel_def Let_def py_ok_def expected_def)
  qed
qed

lemma py_ok_enter:
  assumes ok: "py_ok main loop s" and main: "signals main t \<longrightarrow> t = loop" and bound: "Suc (length (ps_blocks s)) < 2 ^ 32"
    and run: "sink_enter t s = (r, s')"
  shows "py_ok main loop s'"
proof (cases "uc_pending (uc s)")
  case True
  with ok run show ?thesis by (auto simp: sink_enter_def py_ok_def expected_def)
next
  case False
  have "blocks_ok main loop (if d = 0 then Some t else th) (d + 1) (t # bs) as (m \<or> bs \<noteq> [] \<and> th \<noteq> Some t)"
    if "blocks_ok main loop th d bs as m" "Suc (length bs) < 2 ^ 32" for th d bs as m
    using that main of_nat_u32 [of "length bs"] by (auto simp: blocks_ok_def)
  with ok run bound False show ?thesis by (auto simp: sink_enter_def py_ok_def expected_def)
qed

lemma blocks_ok_exit:
  assumes ok: "blocks_ok main loop th d bs as m" and open_block: "t \<in> set bs"
  shows "if 0 < d - 1 then blocks_ok main loop th (d - 1) (remove1 t bs) as m
    else (\<exists>u. th = Some u \<and> blocks_ok main loop None (d - 1) (remove1 t bs) (removeAll u as) m)"
proof -
  have "length bs = Suc (length (remove1 t bs))"
    using open_block by (simp add: length_remove1) (metis length_pos_if_in_set Suc_pred)
  then have depth: "d - 1 = of_nat (length (remove1 t bs))" "length (remove1 t bs) < 2 ^ 32"
    using ok by (simp_all add: blocks_ok_def)
  have zero: "0 < d - 1 \<longleftrightarrow> remove1 t bs \<noteq> []"
    using of_nat_u32 [OF depth(2)] unfolding depth(1) by (simp add: word_gt_0)
  obtain u where u: "th = Some u" using ok open_block by (cases th) (auto simp: blocks_ok_def)
  show ?thesis
  proof (cases "remove1 t bs = []")
    case True
    then show ?thesis using ok u depth zero by (auto simp: blocks_ok_def)
  next
    case False
    then show ?thesis using ok u depth zero by (auto simp: blocks_ok_def dest: notin_set_remove1)
  qed
qed

lemma py_ok_exit:
  assumes ok: "py_ok main loop s" and open_block: "t \<in> set (ps_blocks s)"
  shows "py_ok main loop (sink_exit t s)"
proof -
  note blocks = blocks_ok_exit [OF ok [unfolded py_ok_def, THEN conjunct1] open_block]
  have "in_hand main loop u ks ds cs None" if "in_hand main loop u ks ds cs th" for u ks ds cs th
    using that by (auto simp: in_hand_def)
  then show ?thesis
    using ok blocks by (auto simp: sink_exit_def Let_def py_ok_def expected_def split: if_splits)
qed

lemma py_ok_handled: "py_ok main loop s \<Longrightarrow> py_ok main loop (signal_handled s)"
  by (auto simp: py_ok_def expected_def signal_handled_def signal_router_def Let_def)

interpretation py: inductive_invariant py_start "py_step main loop" "py_ok main loop"
proof
  show "py_ok main loop s" if "py_start s" for s
    using that by (simp add: py_start_def py_initial_def default_user_code_def py_ok_def blocks_ok_def expected_def taken_def)
next
  fix s t assume ok: "py_ok main loop s" and "py_step main loop s t"
  from this(2) show "py_ok main loop t"
  proof cases
    case (raised u)
    have "blocks_ok main loop th d bs (removeAll u as) m" if "blocks_ok main loop th d bs as m" for th d bs as m
      using that by (auto simp: blocks_ok_def)
    with ok show ?thesis unfolding raised(1) by (auto simp: py_ok_def expected_def)
  next
    case foreign
    with ok show ?thesis by (simp add: py_ok_def expected_def)
  next
    case ended
    with ok show ?thesis by (simp add: py_ok_def expected_def)
  next
    case (cancel task)
    show ?thesis unfolding cancel(1) by (rule py_ok_cancel [OF ok cancel(3)])
  next
    case (exit u)
    show ?thesis unfolding exit(1) by (rule py_ok_exit [OF ok exit(2)])
  next
    case handled
    show ?thesis unfolding handled(1) by (rule py_ok_handled [OF ok])
  qed (rule py_ok_request [OF ok] py_ok_started [OF ok] py_ok_kill [OF ok] py_ok_deliver [OF ok] py_ok_enter [OF ok]; assumption)+
qed

section \<open>Properties\<close>

text \<open>
  C28. No interrupt is lost. While an execution runs whose interrupts no hook handles, an
  interrupt that was requested and not delivered is in the hands of a request, a delivery
  thread or a queued callback; so when all of these are done, nothing is pending. This holds
  as long as every SIGINT could be sent and blocks of two threads did not overlap.
\<close>

theorem interrupt_not_lost:
  assumes "reachable py_start (py_step main loop) s" and "\<not> ps_failed s" and "\<not> ps_mixed s"
    and "ps_task s \<notin> set (ps_done s)" and "ps_killing s = []" and "ps_delivers s = []" and "ps_cancels s = []"
  shows "\<not> uc_pending (uc s)"
  using py.inv_reachable [OF assms(1)] assms(2-) by (auto simp: py_ok_def expected_def in_hand_def)

text \<open>
  Every interrupt is delivered at most once. The exceptions raised and injected and the
  tasks cancelled, together with an interrupt that still waits, are no more than the
  requests.
\<close>

theorem interrupt_delivered_once:
  assumes "reachable py_start (py_step main loop) s"
  shows "length (filter (\<lambda>d. d \<noteq> HookCalled) (ps_delivered s)) + (if uc_pending (uc s) then 1 else 0) \<le> ps_requests s"
  using py.inv_reachable [OF assms] by (simp add: py_ok_def taken_def)

text \<open>
  C29. Exceptions stay inside user code. The depth counts the open blocks; a thread with an
  injected \<open>KeyboardInterrupt\<close> that has not been raised is inside one of them, as
  long as blocks of two threads did not overlap; and the SIGINT handler raises only while a
  block is open.
\<close>

theorem interrupts_stay_inside:
  assumes "reachable py_start (py_step main loop) s"
  shows "unat (uc_depth (uc s)) = length (ps_blocks s) \<and>
    (\<not> ps_mixed s \<longrightarrow> set (ps_async s) \<subseteq> set (ps_blocks s)) \<and>
    (fst (signal_router (uc s)) = RaiseInterrupt \<longrightarrow> ps_blocks s \<noteq> [])"
proof -
  have ok: "blocks_ok main loop (uc_thread (uc s)) (uc_depth (uc s)) (ps_blocks s) (ps_async s) (ps_mixed s)"
    using py.inv_reachable [OF assms] by (simp add: py_ok_def)
  have "unat (uc_depth (uc s)) = length (ps_blocks s)"
    using ok by (simp add: blocks_ok_def unat_of_nat)
  moreover have "t \<in> set (ps_blocks s)" if "\<not> ps_mixed s" "t \<in> set (ps_async s)" for t
  proof -
    have "uc_thread (uc s) = Some t" "ps_blocks s \<noteq> []" using ok that by (auto simp: blocks_ok_def)
    moreover have "\<forall>u\<in>set (ps_blocks s). uc_thread (uc s) = Some u"
      using ok that(1) unfolding blocks_ok_def by blast
    ultimately show ?thesis by (cases "ps_blocks s") auto
  qed
  ultimately show ?thesis
    using ok by (auto simp: signal_router_def Let_def blocks_ok_def split: if_splits)
qed

text \<open>
  A run on a child session: the loop and its user code are on thread 7. An execution starts,
  enters a block, is interrupted, and the delivery thread injects the exception.
\<close>

definition demo_entered :: py_state where
  "demo_entered = snd (sink_enter 7 (snd (snd (sink_started (Some 1) False 1 default_interrupt py_initial))))"

definition demo_injected :: py_state where
  "demo_injected = snd (delivery_deliver (Some 1) False 1 1 (snd (delivery_request (Some 1) 1 demo_entered)))"

definition demo_left :: py_state where
  "demo_left = deferred_cancel 1 (sink_exit 7 demo_injected)"

lemma reach_request:
  assumes "reachable py_start (py_step main loop) s" and "ps_task s \<notin> set (ps_done s)"
  shows "reachable py_start (py_step main loop) (snd (delivery_request main (ps_task s) s))"
  by (rule reach_step [OF assms(1)], rule py_step.request [OF assms(2)]) (rule prod.collapse [symmetric])

lemma demo_started_reachable:
  "reachable py_start (py_step main loop) (snd (snd (sink_started main False 1 default_interrupt py_initial)))"
proof (rule reach_step)
  show "reachable py_start (py_step main loop) py_initial" by (rule reach_start) (simp add: py_start_def)
  show "py_step main loop py_initial (snd (snd (sink_started main False 1 default_interrupt py_initial)))"
    by (rule py_step.start [where task = 1 and hook = False and i = default_interrupt and i' = "default_interrupt\<lparr>handler := Some 1\<rparr>"])
      (simp_all add: py_initial_def sink_started_def set_handler_def default_interrupt_def Let_def)
qed

lemma demo_entered_reachable: "reachable py_start (py_step (Some 1) 7) demo_entered"
proof -
  have "ps_blocks (snd (snd (sink_started (Some 1) False 1 default_interrupt py_initial))) = []" by code_simp
  then show ?thesis unfolding demo_entered_def
    by (intro reach_step [OF demo_started_reachable] py_step.enter [OF _ _ prod.collapse [symmetric]])
      (simp_all add: signals_def)
qed

lemma demo_injected_reachable: "reachable py_start (py_step (Some 1) 7) demo_injected"
proof -
  have "ps_task demo_entered = 1" "1 \<notin> set (ps_done demo_entered)" by code_simp+
  with reach_request [OF demo_entered_reachable]
  have "reachable py_start (py_step (Some 1) 7) (snd (delivery_request (Some 1) 1 demo_entered))" by simp
  then show ?thesis unfolding demo_injected_def
    by (rule reach_step, intro py_step.deliver [OF _ prod.collapse [symmetric]]) code_simp
qed

lemma demo_left_reachable: "reachable py_start (py_step (Some 1) 7) demo_left"
proof -
  have "reachable py_start (py_step (Some 1) 7) (sink_exit 7 demo_injected)"
    by (rule reach_step [OF demo_injected_reachable], rule py_step.exit) code_simp
  then show ?thesis unfolding demo_left_def
    by (rule reach_step, intro py_step.cancel) code_simp+
qed

theorem interrupt_not_lost_witness: "\<not> uc_pending (uc demo_left)"
proof -
  have "\<not> ps_failed demo_left" "\<not> ps_mixed demo_left" "ps_task demo_left \<notin> set (ps_done demo_left)"
    "ps_killing demo_left = []" "ps_delivers demo_left = []" "ps_cancels demo_left = []" by code_simp+
  then show ?thesis by (rule interrupt_not_lost [OF demo_left_reachable])
qed

theorem interrupt_delivered_once_witness:
  "length (filter (\<lambda>d. d \<noteq> HookCalled) (ps_delivered demo_injected)) = 1 \<and> ps_requests demo_injected = 1"
proof -
  have "ps_delivered demo_injected = [Injected 7]" "ps_requests demo_injected = 1" by code_simp+
  with interrupt_delivered_once [OF demo_injected_reachable] show ?thesis by simp
qed

theorem interrupts_stay_inside_witness: "set (ps_async demo_injected) \<subseteq> set (ps_blocks demo_injected) \<and> ps_async demo_injected = [7]"
proof -
  have "\<not> ps_mixed demo_injected" "ps_async demo_injected = [7]" by code_simp+
  with interrupts_stay_inside [OF demo_injected_reachable] show ?thesis by simp
qed


text \<open>
  A run on the parent session, on the main thread 1: two requests for code in a block, the
  second of which has not sent its SIGINT when the handler runs for the first.
\<close>

definition demo_main_entered :: py_state where
  "demo_main_entered = snd (sink_enter 1 (snd (snd (sink_started (Some 1) False 1 default_interrupt py_initial))))"

definition demo_requested_twice :: py_state where
  "demo_requested_twice = snd (delivery_request (Some 1) 1 (snd (delivery_signal None False 1
     (snd (delivery_request (Some 1) 1 demo_main_entered)))))"

definition demo_misread :: py_state where
  "demo_misread = signal_handled (snd (delivery_signal None False 1 (signal_handled demo_requested_twice)))"

lemma reach_kill:
  assumes "reachable py_start (py_step main loop) s" and "task \<in> set (ps_killing s)"
  shows "reachable py_start (py_step main loop) (snd (delivery_signal err merges task s))"
  by (rule reach_step [OF assms(1)], rule py_step.kill [OF assms(2)]) (rule prod.collapse [symmetric])

lemma reach_handled:
  "reachable py_start (py_step main loop) s \<Longrightarrow> 0 < ps_sigints s \<Longrightarrow> reachable py_start (py_step main loop) (signal_handled s)"
  by (erule reach_step) (rule py_step.handled)

lemma demo_requested_twice_reachable: "reachable py_start (py_step (Some 1) 1) demo_requested_twice"
proof -
  let ?r = "reachable py_start (py_step (Some 1) 1)"
  have "ps_blocks (snd (snd (sink_started (Some 1) False 1 default_interrupt py_initial))) = []" by code_simp
  then have entered: "?r demo_main_entered" unfolding demo_main_entered_def
    by (intro reach_step [OF demo_started_reachable] py_step.enter [OF _ _ prod.collapse [symmetric]])
      (simp_all add: signals_def)
  have "ps_task demo_main_entered = 1" "1 \<notin> set (ps_done demo_main_entered)" by code_simp+
  with reach_request [OF entered] have first: "?r (snd (delivery_request (Some 1) 1 demo_main_entered))" by simp
  let ?s = "snd (delivery_signal None False 1 (snd (delivery_request (Some 1) 1 demo_main_entered)))"
  have sent: "?r ?s" by (rule reach_kill [OF first]) code_simp
  have "ps_task ?s = 1" "1 \<notin> set (ps_done ?s)" by code_simp+
  with reach_request [OF sent] show ?thesis unfolding demo_requested_twice_def by simp
qed

text \<open>
  C39. The adapter can take its own SIGINT for a foreign one. Two requests for code in a
  block on the main thread can leave one flag for two SIGINTs; the handler of the second
  then interrupts the whole kernel, although no SIGINT came from elsewhere.
\<close>

theorem own_signal_interrupts_kernel:
  "reachable py_start (py_step (Some 1) 1) demo_misread \<and> ps_foreign demo_misread = 0 \<and> ps_requests demo_misread = 2 \<and>
   ps_kernel_interrupts demo_misread = 1"
proof (intro conjI)
  have one: "reachable py_start (py_step (Some 1) 1) (signal_handled demo_requested_twice)"
    by (rule reach_handled [OF demo_requested_twice_reachable]) code_simp
  have "reachable py_start (py_step (Some 1) 1) (snd (delivery_signal None False 1 (signal_handled demo_requested_twice)))"
    by (rule reach_kill [OF one]) code_simp
  then show "reachable py_start (py_step (Some 1) 1) demo_misread"
    unfolding demo_misread_def by (rule reach_handled) code_simp
qed code_simp+

end
