(* ===== verification/Thread_Worker.thy ===== *)
theory Thread_Worker
  imports Errors
begin

text \<open>
  \<open>src/src/thread_worker.rs\<close>: a state that is created, used and dropped on one
  thread, and the jobs sent to it. A call is a function of the state; \<open>None\<close> is its
  panic. Replies go into \<open>oneshot\<close> channels, one for each job, known by its ticket;
  a channel whose sender is dropped gives \<open>Lost\<close>.
\<close>

datatype ('s, 'r) job = Call (ticket_of: nat) "'s \<Rightarrow> ('r \<times> 's) option" | Stop (ticket_of: nat)

datatype 'r answer = Returned 'r | Stopped | Lost

text \<open>\<open>w_handles\<close> says whether a handle is left.\<close>

record ('s, 'r) worker =
  w_state :: "'s option"
  w_jobs :: "('s, 'r) job list"
  w_open :: bool
  w_handles :: bool
  w_replies :: "(nat \<times> 'r answer) list"
  w_issued :: nat

definition worker_new :: "'s \<Rightarrow> ('s, 'r) worker" where
  "worker_new s = \<lparr>w_state = Some s, w_jobs = [], w_open = True, w_handles = True, w_replies = [], w_issued = 0\<rparr>"

text \<open>
  \<open>start\<close>: the thread may not be spawned, \<open>create\<close> may fail, and it may panic,
  which drops \<open>ready\<close>.
\<close>

datatype 's creation = SpawnFailed "int option" string | Created "'s result" | CreatePanicked string

fun worker_start :: "'s creation \<Rightarrow> ('s, 'r) worker result" where
  "worker_start (SpawnFailed n t) = Inl (from_io n t)"
| "worker_start (Created (Inl e)) = Inl e"
| "worker_start (Created (Inr s)) = Inr (worker_new s)"
| "worker_start (CreatePanicked t) = Inl (caused_by (closed ''interpreter worker during startup'') (OtherCause t))"

definition worker_send :: "(nat \<Rightarrow> ('s, 'r) job) \<Rightarrow> ('s, 'r) worker \<Rightarrow> nat result \<times> ('s, 'r) worker" where
  "worker_send job w =
     (if w_open w
      then (Inr (w_issued w), w\<lparr>w_jobs := w_jobs w @ [job (w_issued w)], w_issued := Suc (w_issued w)\<rparr>)
      else (Inl (closed ''interpreter worker''), w))"

text \<open>The end of the thread drops the state, the receiver and the jobs that wait.\<close>

definition worker_end :: "('s, 'r) worker \<Rightarrow> ('s, 'r) worker" where
  "worker_end w = w\<lparr>w_state := None, w_open := False, w_jobs := [],
     w_replies := w_replies w @ map (\<lambda>j. (ticket_of j, Lost)) (w_jobs w)\<rparr>"

text \<open>A turn of the thread's loop.\<close>

definition worker_turn :: "('s, 'r) worker \<Rightarrow> ('s, 'r) worker" where
  "worker_turn w =
     (case (w_state w, w_jobs w) of
        (Some s, Call t f # js) \<Rightarrow>
          (case f s of
             Some (r, s') \<Rightarrow> w\<lparr>w_state := Some s', w_jobs := js, w_replies := w_replies w @ [(t, Returned r)]\<rparr>
           | None \<Rightarrow> worker_end (w\<lparr>w_jobs := js, w_replies := w_replies w @ [(t, Lost)]\<rparr>))
      | (Some s, Stop t # js) \<Rightarrow> worker_end (w\<lparr>w_jobs := js, w_replies := w_replies w @ [(t, Stopped)]\<rparr>)
      | (Some s, []) \<Rightarrow> if w_handles w then w else worker_end w
      | (None, _) \<Rightarrow> w)"

text \<open>What \<open>call\<close> and \<open>shutdown\<close> return for the answer of their job.\<close>

fun call_result :: "string \<Rightarrow> 'r answer \<Rightarrow> 'r result" where
  "call_result t (Returned r) = Inr r"
| "call_result t _ = Inl (caused_by (closed ''interpreter worker'') (OtherCause t))"

fun shutdown_answer :: "string \<Rightarrow> 'r answer \<Rightarrow> unit result" where
  "shutdown_answer t Stopped = Inr ()"
| "shutdown_answer t _ = Inl (caused_by (closed ''interpreter worker during shutdown'') (OtherCause t))"

inductive worker_step :: "('s, 'r) worker \<Rightarrow> ('s, 'r) worker \<Rightarrow> bool" where
  sends_call: "w_handles w \<Longrightarrow> worker_send (\<lambda>t. Call t f) w = (r, w') \<Longrightarrow> worker_step w w'"
| sends_stop: "w_handles w \<Longrightarrow> worker_send Stop w = (r, w') \<Longrightarrow> worker_step w w'"
| turns: "worker_step w (worker_turn w)"
| released: "worker_step w (w\<lparr>w_handles := False\<rparr>)"

definition worker_started :: "'s \<Rightarrow> ('s, 'r) worker \<Rightarrow> bool" where
  "worker_started s w \<longleftrightarrow> w = worker_new s"

section \<open>The sequential object\<close>

text \<open>
  What the worker promises: an object that runs every call at once when it is submitted,
  in the order of submission, until it is stopped, a call panics, or it is dropped.
\<close>

record ('s, 'r) sequential =
  sq_state :: "'s option"
  sq_answers :: "(nat \<times> 'r answer) list"

fun run_job :: "'s option \<Rightarrow> ('s, 'r) job \<Rightarrow> 'r answer \<times> 's option" where
  "run_job None j = (Lost, None)"
| "run_job (Some s) (Call t f) = (case f s of Some (r, s') \<Rightarrow> (Returned r, Some s') | None \<Rightarrow> (Lost, None))"
| "run_job (Some s) (Stop t) = (Stopped, None)"

definition seq_submit :: "('s, 'r) job \<Rightarrow> ('s, 'r) sequential \<Rightarrow> ('s, 'r) sequential" where
  "seq_submit j q =
     (case run_job (sq_state q) j of (a, s) \<Rightarrow> \<lparr>sq_state = s, sq_answers = sq_answers q @ [(ticket_of j, a)]\<rparr>)"

inductive seq_step :: "('s, 'r) sequential \<Rightarrow> ('s, 'r) sequential \<Rightarrow> bool" where
  submits: "ticket_of j = length (sq_answers q) \<Longrightarrow> seq_step q (seq_submit j q)"
| drops: "seq_step q (q\<lparr>sq_state := None\<rparr>)"

definition seq_started :: "'s \<Rightarrow> ('s, 'r) sequential \<Rightarrow> bool" where
  "seq_started s q \<longleftrightarrow> q = \<lparr>sq_state = Some s, sq_answers = []\<rparr>"

text \<open>The worker as a sequential object: the jobs that wait are run ahead of time.\<close>

definition run_ahead :: "('s, 'r) worker \<Rightarrow> ('s, 'r) sequential" where
  "run_ahead w = fold seq_submit (w_jobs w) \<lparr>sq_state = w_state w, sq_answers = w_replies w\<rparr>"

section \<open>Lemmas\<close>

lemma seq_submit_simps [simp]:
  "sq_answers (seq_submit j q) = sq_answers q @ [(ticket_of j, fst (run_job (sq_state q) j))]"
  "sq_state (seq_submit j q) = snd (run_job (sq_state q) j)"
  by (simp_all add: seq_submit_def split: prod.split)

lemma fold_submit_none:
  "sq_state q = None \<Longrightarrow>
   fold seq_submit js q = \<lparr>sq_state = None, sq_answers = sq_answers q @ map (\<lambda>j. (ticket_of j, Lost)) js\<rparr>"
  by (induction js arbitrary: q) simp_all

lemma fold_submit_length [simp]: "length (sq_answers (fold seq_submit js q)) = length (sq_answers q) + length js"
  by (induction js arbitrary: q) simp_all

lemma fold_submit_prefix: "take (length (sq_answers q)) (sq_answers (fold seq_submit js q)) = sq_answers q"
  by (induction js rule: rev_induct) simp_all

definition worker_ok :: "('s, 'r) worker \<Rightarrow> bool" where
  "worker_ok w \<longleftrightarrow> w_issued w = length (w_replies w) + length (w_jobs w) \<and>
     (w_open w \<longleftrightarrow> w_state w \<noteq> None) \<and> (\<not> w_open w \<longrightarrow> w_jobs w = [])"

lemma worker_end_ok: "worker_ok w \<Longrightarrow> worker_ok (worker_end w)"
  by (simp add: worker_ok_def worker_end_def)

lemma run_ahead_end: "run_ahead (worker_end w) = fold seq_submit (w_jobs w) \<lparr>sq_state = None, sq_answers = w_replies w\<rparr>"
  by (simp add: run_ahead_def worker_end_def fold_submit_none)

lemma worker_turn_cases:
  obtains (idle) "worker_turn w = w"
  | (hangup) "w_jobs w = []" "worker_turn w = worker_end w"
  | (runs) j js a s' where "w_state w \<noteq> None" "w_jobs w = j # js" "run_job (w_state w) j = (a, Some s')"
      "worker_turn w = w\<lparr>w_state := Some s', w_jobs := js, w_replies := w_replies w @ [(ticket_of j, a)]\<rparr>"
  | (ends) j js a where "w_state w \<noteq> None" "w_jobs w = j # js" "run_job (w_state w) j = (a, None)"
      "worker_turn w = worker_end (w\<lparr>w_jobs := js, w_replies := w_replies w @ [(ticket_of j, a)]\<rparr>)"
proof (cases "w_state w")
  case None
  then show ?thesis by (intro idle) (simp add: worker_turn_def)
next
  case (Some s)
  show ?thesis
  proof (cases "w_jobs w")
    case Nil
    then show ?thesis using Some idle hangup by (cases "w_handles w") (simp_all add: worker_turn_def)
  next
    case (Cons j js)
    show ?thesis
    proof (cases j)
      case (Call t f)
      show ?thesis
      proof (cases "f s")
        case None
        then show ?thesis using Some Cons Call by (intro ends [of j js Lost]) (simp_all add: worker_turn_def)
      next
        case (Some x)
        then show ?thesis using \<open>w_state w = Some s\<close> Cons Call
          by (intro runs [of j js "Returned (fst x)" "snd x"]) (simp_all add: worker_turn_def split: prod.split)
      qed
    next
      case (Stop t)
      then show ?thesis using Some Cons by (intro ends [of j js Stopped]) (simp_all add: worker_turn_def)
    qed
  qed
qed

lemma worker_turn_ok:
  assumes "worker_ok w"
  shows "worker_ok (worker_turn w)"
proof (cases w rule: worker_turn_cases)
  case (runs j js a s')
  show ?thesis unfolding runs(4) using assms runs(1,2) by (simp add: worker_ok_def)
next
  case (ends j js a)
  show ?thesis unfolding ends(4) by (rule worker_end_ok) (use assms ends(1,2) in \<open>simp add: worker_ok_def\<close>)
qed (simp_all add: assms worker_end_ok)

lemma run_ahead_turn: "run_ahead (worker_turn w) = run_ahead w \<or> run_ahead (worker_turn w) = (run_ahead w)\<lparr>sq_state := None\<rparr>"
proof (cases w rule: worker_turn_cases)
  case hangup
  then show ?thesis by (simp add: run_ahead_end) (simp add: run_ahead_def)
next
  case (runs j js a s')
  have "seq_submit j \<lparr>sq_state = w_state w, sq_answers = w_replies w\<rparr> =
      \<lparr>sq_state = Some s', sq_answers = w_replies w @ [(ticket_of j, a)]\<rparr>"
    using runs(3) by (simp add: seq_submit_def)
  then show ?thesis unfolding runs(4) by (simp add: run_ahead_def runs(2))
next
  case (ends j js a)
  have "seq_submit j \<lparr>sq_state = w_state w, sq_answers = w_replies w\<rparr> =
      \<lparr>sq_state = None, sq_answers = w_replies w @ [(ticket_of j, a)]\<rparr>"
    using ends(3) by (simp add: seq_submit_def)
  then show ?thesis unfolding ends(4) run_ahead_end by (simp add: run_ahead_def ends(2))
qed simp

lemma run_ahead_send:
  assumes "worker_ok w" and "worker_send job w = (r, w')" and "ticket_of (job (w_issued w)) = w_issued w"
  shows "worker_ok w' \<and> (run_ahead w' = run_ahead w \<or> seq_step (run_ahead w) (run_ahead w'))"
proof (cases "w_open w")
  case True
  then have w': "w' = w\<lparr>w_jobs := w_jobs w @ [job (w_issued w)], w_issued := Suc (w_issued w)\<rparr>"
    using assms(2) by (simp add: worker_send_def)
  have "run_ahead w' = seq_submit (job (w_issued w)) (run_ahead w)" by (simp add: w' run_ahead_def)
  moreover have "ticket_of (job (w_issued w)) = length (sq_answers (run_ahead w))"
    using assms(1,3) by (simp add: run_ahead_def worker_ok_def)
  moreover have "worker_ok w'" using assms(1) True by (simp add: w' worker_ok_def)
  ultimately show ?thesis by (simp add: seq_step.submits)
next
  case False
  then show ?thesis using assms(1,2) by (simp add: worker_send_def)
qed

interpretation tw: forward_simulation "worker_started s" worker_step worker_ok "seq_started s" seq_step run_ahead for s
proof
  show "worker_ok w" if "worker_started s w" for w
    using that by (simp add: worker_started_def worker_new_def worker_ok_def)
  show "seq_started s (run_ahead w)" if "worker_started s w" for w
    using that by (simp add: worker_started_def worker_new_def seq_started_def run_ahead_def)
  show "worker_ok v" if "worker_ok w" "worker_step w v" for w v
    using that(2,1)
  proof cases
    case released
    with that(1) show ?thesis by (simp add: worker_ok_def)
  qed (auto dest: run_ahead_send intro: worker_turn_ok)
  show "run_ahead v = run_ahead w \<or> seq_step (run_ahead w) (run_ahead v)" if "worker_ok w" "worker_step w v" for w v
    using that(2,1)
  proof cases
    case turns
    then show ?thesis using run_ahead_turn [of w] by (metis seq_step.drops)
  next
    case released
    then show ?thesis by (simp add: run_ahead_def)
  qed (auto dest: run_ahead_send)
qed

section \<open>Properties\<close>


text \<open>A counter that is read and advanced twice and then stopped, with a call after the stop.\<close>

definition demo_count :: "nat \<Rightarrow> (nat \<times> nat) option" where
  "demo_count n = Some (n, Suc n)"

definition demo_sent :: "(nat, nat) worker" where
  "demo_sent = snd (worker_send (\<lambda>t. Call t demo_count) (snd (worker_send Stop
     (snd (worker_send (\<lambda>t. Call t demo_count) (snd (worker_send (\<lambda>t. Call t demo_count) (worker_new 5))))))))"

definition demo_worker :: "(nat, nat) worker" where
  "demo_worker = worker_turn (worker_turn (worker_turn demo_sent))"

lemma reach_sends:
  assumes "reachable (worker_started s) worker_step w" and "w_handles w"
  shows "reachable (worker_started s) worker_step (snd (worker_send (\<lambda>t. Call t f) w))"
    and "reachable (worker_started s) worker_step (snd (worker_send Stop w))"
  by (rule reach_step [OF assms(1)], intro worker_step.sends_call [OF assms(2) prod.collapse [symmetric]])
    (rule reach_step [OF assms(1)], intro worker_step.sends_stop [OF assms(2) prod.collapse [symmetric]])

lemma reach_turn:
  "reachable (worker_started s) worker_step w \<Longrightarrow> reachable (worker_started s) worker_step (worker_turn w)"
  by (erule reach_step) (rule worker_step.turns)

lemma send_handles [simp]: "w_handles (snd (worker_send job w)) = w_handles w"
  by (simp add: worker_send_def)


end
