(* ===== verification/Kernelspec.thy ===== *)
theory Kernelspec
  imports Json Errors
begin

text \<open>
  \<open>src/src/kernelspec.rs\<close> on Linux: where kernelspecs live, and writing or copying one
  in place of another.

  A file system is the list of its entries with their paths from the root, in the order in
  which \<open>read_dir\<close> lists them. It has no symbolic links. \<open>sh_deny\<close> of the host
  is any failure that the entries do not explain (permissions, a full disk); the text of an
  error is the host's. A path is a string, as \<open>PathBuf\<close> has it, and is resolved by the
  operations of the file system.
\<close>

section \<open>Paths\<close>

text \<open>\<open>Path::join\<close>: an absolute path replaces the first.\<close>

definition path_join :: "string \<Rightarrow> string \<Rightarrow> string" where
  "path_join a b =
     (if starts_with b ''/'' then b
      else if a = [] \<or> ends_with a ''/'' then a @ b
      else a @ ''/'' @ b)"

fun split_slash :: "string \<Rightarrow> string list" where
  "split_slash [] = [[]]"
| "split_slash (c # s) = (if c = CHR ''/'' then [] # split_slash s else (c # hd (split_slash s)) # tl (split_slash s))"

definition enter_component :: "string \<Rightarrow> string list \<Rightarrow> string list" where
  "enter_component c p = (if c = [] \<or> c = ''.'' then p else if c = ''..'' then butlast p else p @ [c])"

definition resolve :: "string list \<Rightarrow> string \<Rightarrow> string list" where
  "resolve cwd path = fold enter_component (split_slash path) (if starts_with path ''/'' then [] else cwd)"

section \<open>The file system\<close>

datatype entry = Directory | Contents bytes

type_synonym file_system = "(string list \<times> entry) list"

datatype fs_op = RemoveAll | MakeDirectories | WriteFile | ReadDirectory | Metadata | CopyFile

record spec_host =
  sh_env :: "string \<Rightarrow> string option"
  sh_cwd :: "string list"
  sh_deny :: "fs_op \<Rightarrow> string list \<Rightarrow> (int option \<times> string) option"
  sh_text :: "int \<Rightarrow> string"
  sh_pretty :: "json \<Rightarrow> string + bytes"

type_synonym io_error = "int option \<times> string"

definition os_error :: "spec_host \<Rightarrow> int \<Rightarrow> io_error" where
  "os_error h n = (Some n, sh_text h n)"

definition is_below :: "string list \<Rightarrow> string list \<Rightarrow> bool" where
  "is_below p q \<longleftrightarrow> take (length p) q = p"

definition allowed :: "spec_host \<Rightarrow> fs_op \<Rightarrow> string list \<Rightarrow> (io_error + 'a) \<Rightarrow> io_error + 'a" where
  "allowed h op p r = (case sh_deny h op p of Some e \<Rightarrow> Inl e | None \<Rightarrow> r)"

text \<open>The errors are ENOENT (2), EEXIST (17), ENOTDIR (20) and EISDIR (21).\<close>

definition remove_dir_all :: "spec_host \<Rightarrow> string list \<Rightarrow> file_system \<Rightarrow> io_error + file_system" where
  "remove_dir_all h p fs = allowed h RemoveAll p
     (case map_of fs p of
        None \<Rightarrow> Inl (os_error h 2)
      | Some (Contents _) \<Rightarrow> Inl (os_error h 20)
      | Some Directory \<Rightarrow> Inr (filter (\<lambda>e. \<not> is_below p (fst e)) fs))"

definition make_directory :: "string list \<Rightarrow> file_system \<Rightarrow> file_system" where
  "make_directory p fs = (if map_of fs p = None then fs @ [(p, Directory)] else fs)"

definition leads :: "string list \<Rightarrow> string list list" where
  "leads p = map (\<lambda>n. take n p) [0..<Suc (length p)]"

definition create_dir_all :: "spec_host \<Rightarrow> string list \<Rightarrow> file_system \<Rightarrow> io_error + file_system" where
  "create_dir_all h p fs = allowed h MakeDirectories p
     (if \<exists>q \<in> set (leads p). \<exists>b. map_of fs q = Some (Contents b)
      then Inl (os_error h (if map_of fs p \<noteq> None then 17 else 20))
      else Inr (fold make_directory (leads p) fs))"

definition set_file :: "string list \<Rightarrow> bytes \<Rightarrow> file_system \<Rightarrow> file_system" where
  "set_file p b fs = filter (\<lambda>e. fst e \<noteq> p) fs @ [(p, Contents b)]"

definition write_file :: "spec_host \<Rightarrow> string list \<Rightarrow> bytes \<Rightarrow> file_system \<Rightarrow> io_error + file_system" where
  "write_file h p b fs = allowed h WriteFile p
     (if map_of fs p = Some Directory then Inl (os_error h 21)
      else case map_of fs (butlast p) of
        None \<Rightarrow> Inl (os_error h 2)
      | Some (Contents _) \<Rightarrow> Inl (os_error h 20)
      | Some Directory \<Rightarrow> Inr (set_file p b fs))"

definition read_dir :: "spec_host \<Rightarrow> string list \<Rightarrow> file_system \<Rightarrow> io_error + string list" where
  "read_dir h p fs = allowed h ReadDirectory p
     (case map_of fs p of
        None \<Rightarrow> Inl (os_error h 2)
      | Some (Contents _) \<Rightarrow> Inl (os_error h 20)
      | Some Directory \<Rightarrow> Inr (map (\<lambda>e. last (fst e)) (filter (\<lambda>e. fst e \<noteq> [] \<and> butlast (fst e) = p) fs)))"

definition is_dir :: "spec_host \<Rightarrow> string list \<Rightarrow> file_system \<Rightarrow> io_error + bool" where
  "is_dir h p fs = allowed h Metadata p
     (case map_of fs p of None \<Rightarrow> Inl (os_error h 2) | Some e \<Rightarrow> Inr (e = Directory))"

definition copy_file :: "spec_host \<Rightarrow> string list \<Rightarrow> string list \<Rightarrow> file_system \<Rightarrow> io_error + file_system" where
  "copy_file h src dest fs = allowed h CopyFile src
     (case map_of fs src of
        Some (Contents b) \<Rightarrow> write_file h dest b fs
      | Some Directory \<Rightarrow> Inl (os_error h 21)
      | None \<Rightarrow> Inl (os_error h 2))"

section \<open>Kernelspecs\<close>

definition var :: "spec_host \<Rightarrow> string \<Rightarrow> string option" where
  "var h name = (case sh_env h name of Some v \<Rightarrow> if v = [] then None else Some v | None \<Rightarrow> None)"

definition jupyter_data_dir :: "spec_host \<Rightarrow> string result" where
  "jupyter_data_dir h =
     (case var h ''JUPYTER_DATA_DIR'' of
        Some dir \<Rightarrow> Inr dir
      | None \<Rightarrow>
          (case var h ''HOME'' of
             None \<Rightarrow> Inl (error_new Unavailable ''no home directory'')
           | Some home \<Rightarrow>
               Inr (path_join (case var h ''XDG_DATA_HOME'' of Some d \<Rightarrow> d
                               | None \<Rightarrow> path_join (path_join home ''.local'') ''share'') ''jupyter'')))"

definition kernels_dir :: "spec_host \<Rightarrow> string option \<Rightarrow> string result" where
  "kernels_dir h prefix =
     (case prefix of
        Some p \<Rightarrow> Inr (path_join (path_join (path_join p ''share'') ''jupyter'') ''kernels'')
      | None \<Rightarrow> (case jupyter_data_dir h of Inl e \<Rightarrow> Inl e | Inr d \<Rightarrow> Inr (path_join d ''kernels'')))"

definition io_result :: "io_error + 'a \<Rightarrow> 'a result" where
  "io_result r = (case r of Inl (n, t) \<Rightarrow> Inl (from_io n t) | Inr v \<Rightarrow> Inr v)"

text \<open>Each operation gives its result and the file system it leaves.\<close>

definition fresh :: "spec_host \<Rightarrow> string \<Rightarrow> string option \<Rightarrow> file_system \<Rightarrow> string result \<times> file_system" where
  "fresh h name prefix fs =
     (case kernels_dir h prefix of
        Inl e \<Rightarrow> (Inl e, fs)
      | Inr dir \<Rightarrow>
          let dest = path_join dir name; p = resolve (sh_cwd h) dest in
          case (if map_of fs p \<noteq> None then remove_dir_all h p fs else Inr fs) of
            Inl (n, t) \<Rightarrow> (Inl (from_io n t), fs)
          | Inr fs' \<Rightarrow>
              (case create_dir_all h p fs' of
                 Inl (n, t) \<Rightarrow> (Inl (from_io n t), fs')
               | Inr fs'' \<Rightarrow> (Inr dest, fs'')))"

definition kernel_spec :: "string list \<Rightarrow> string \<Rightarrow> string \<Rightarrow> json_map \<Rightarrow> json" where
  "kernel_spec argv display_name lang extra =
     JObj (obj_extend [(''argv'', JArr (map JStr argv)), (''display_name'', JStr display_name), (''language'', JStr lang)] extra)"

definition install_kernelspec :: "spec_host \<Rightarrow> string \<Rightarrow> string list \<Rightarrow> string \<Rightarrow> string \<Rightarrow> json_map \<Rightarrow> string option \<Rightarrow>
    file_system \<Rightarrow> string result \<times> file_system" where
  "install_kernelspec h name argv display_name lang extra prefix fs =
     (case fresh h name prefix fs of
        (Inl e, fs') \<Rightarrow> (Inl e, fs')
      | (Inr dest, fs') \<Rightarrow>
          (case sh_pretty h (kernel_spec argv display_name lang extra) of
             Inl e \<Rightarrow> (Inl (from_json e), fs')
           | Inr text \<Rightarrow>
               (case write_file h (resolve (sh_cwd h) (path_join dest ''kernel.json'')) text fs' of
                  Inl (n, t) \<Rightarrow> (Inl (from_io n t), fs')
                | Inr fs'' \<Rightarrow> (Inr dest, fs''))))"

text \<open>
  \<open>copy_dir\<close> with a bound on the depth of its recursion; \<open>None\<close> is running out
  of it. A call lists its directory before it copies anything.
\<close>

type_synonym copying = "file_system \<Rightarrow> ((io_error + unit) \<times> file_system) option"

definition copy_entry :: "(string list \<Rightarrow> string list \<Rightarrow> copying) \<Rightarrow> spec_host \<Rightarrow> string list \<Rightarrow> string list \<Rightarrow> string \<Rightarrow> copying" where
  "copy_entry copy h src dest x fs =
     (case is_dir h (src @ [x]) fs of
        Inl e \<Rightarrow> Some (Inl e, fs)
      | Inr d \<Rightarrow>
          if d
          then (case create_dir_all h (dest @ [x]) fs of
             Inl e \<Rightarrow> Some (Inl e, fs)
           | Inr fs' \<Rightarrow> copy (src @ [x]) (dest @ [x]) fs')
          else (case copy_file h (src @ [x]) (dest @ [x]) fs of
             Inl e \<Rightarrow> Some (Inl e, fs)
           | Inr fs' \<Rightarrow> Some (Inr (), fs')))"

fun copy_entries :: "(string \<Rightarrow> copying) \<Rightarrow> string list \<Rightarrow> copying" where
  "copy_entries copy [] fs = Some (Inr (), fs)"
| "copy_entries copy (x # xs) fs =
     (case copy x fs of
        None \<Rightarrow> None
      | Some (r, fs') \<Rightarrow> (case r of Inl e \<Rightarrow> Some (Inl e, fs') | Inr _ \<Rightarrow> copy_entries copy xs fs'))"

primrec copy_dir :: "nat \<Rightarrow> spec_host \<Rightarrow> string list \<Rightarrow> string list \<Rightarrow> copying" where
  "copy_dir 0 h src dest fs = None"
| "copy_dir (Suc n) h src dest fs =
     (case read_dir h src fs of
        Inl e \<Rightarrow> Some (Inl e, fs)
      | Inr names \<Rightarrow> copy_entries (copy_entry (copy_dir n h) h src dest) names fs)"

definition install_kernelspec_dir :: "nat \<Rightarrow> spec_host \<Rightarrow> string \<Rightarrow> string \<Rightarrow> string option \<Rightarrow> file_system \<Rightarrow>
    (string result \<times> file_system) option" where
  "install_kernelspec_dir n h src name prefix fs =
     (case fresh h name prefix fs of
        (Inl e, fs') \<Rightarrow> Some (Inl e, fs')
      | (Inr dest, fs') \<Rightarrow>
          (case copy_dir n h (resolve (sh_cwd h) src) (resolve (sh_cwd h) dest) fs' of
             None \<Rightarrow> None
           | Some (Inl (c, t), fs'') \<Rightarrow> Some (Inl (context_err (from_io c t) (''copying '' @ src)), fs'')
           | Some (Inr _, fs'') \<Rightarrow> Some (Inr dest, fs'')))"

section \<open>Lemmas\<close>

lemma is_below_iff: "is_below p q \<longleftrightarrow> (\<exists>r. q = p @ r)"
  by (metis append_eq_conv_conj append_take_drop_id is_below_def)

lemma is_below_simps [simp]: "is_below p p" "is_below p (p @ r)" "is_below [] q"
  by (simp_all add: is_below_def)

lemma leads_iff: "q \<in> set (leads p) \<longleftrightarrow> is_below q p"
proof
  assume "q \<in> set (leads p)"
  then obtain n where "q = take n p" unfolding leads_def set_map by blast
  then show "is_below q p" by (metis append_take_drop_id is_below_iff)
next
  assume "is_below q p"
  then obtain r where "p = q @ r" by (auto simp: is_below_iff)
  then have "q = take (length q) p" "length q < Suc (length p)" by simp_all
  then show "q \<in> set (leads p)" unfolding leads_def by (metis atLeastLessThan_upt image_eqI le0 list.set_map lessThan_atLeast0 lessThan_iff)
qed

lemma map_of_filter_key: "map_of (filter (\<lambda>e. P (fst e)) m) k = (if P k then map_of m k else None)"
  by (induction m) auto

lemma make_directory_get:
  "map_of (make_directory p fs) q = (if q = p \<and> map_of fs p = None then Some Directory else map_of fs q)"
  by (auto simp: make_directory_def map_add_def split: option.split)

lemma fold_make_directory_get:
  "map_of (fold make_directory ps fs) q = (if map_of fs q = None \<and> q \<in> set ps then Some Directory else map_of fs q)"
  by (induction ps arbitrary: fs) (auto simp: make_directory_get)

lemma set_file_get: "map_of (set_file p b fs) q = (if q = p then Some (Contents b) else map_of fs q)"
  by (simp add: set_file_def map_add_def map_of_filter_key [of "\<lambda>k. k \<noteq> p"] split: option.split)

lemma read_dir_names:
  assumes "read_dir h p fs = Inr names"
  shows "x \<in> set names \<longleftrightarrow> map_of fs (p @ [x]) \<noteq> None"
proof -
  have "names = map (\<lambda>e. last (fst e)) (filter (\<lambda>e. fst e \<noteq> [] \<and> butlast (fst e) = p) fs)"
    using assms by (simp add: read_dir_def allowed_def split: option.splits entry.splits)
  then have "x \<in> set names \<longleftrightarrow> (\<exists>e \<in> set fs. fst e \<noteq> [] \<and> butlast (fst e) = p \<and> last (fst e) = x)" by auto
  also have "\<dots> \<longleftrightarrow> p @ [x] \<in> fst ` set fs" by (simp add: snoc_eq_iff_butlast [symmetric] image_iff)
  finally show ?thesis by (simp add: map_of_eq_None_iff)
qed

lemma read_dir_distinct:
  assumes "read_dir h p fs = Inr names" and "distinct (map fst fs)"
  shows "distinct names"
proof -
  let ?es = "filter (\<lambda>e. fst e \<noteq> [] \<and> butlast (fst e) = p) fs"
  have names: "names = map (\<lambda>e. last (fst e)) ?es"
    using assms(1) by (simp add: read_dir_def allowed_def split: option.splits entry.splits)
  have "distinct (map fst ?es)" using assms(2) by (simp add: distinct_map_filter)
  moreover have "inj_on last (set (map fst ?es))" by (auto simp: inj_on_def) (metis append_butlast_last_id)
  ultimately have "distinct (map last (map fst ?es))" by (simp only: distinct_map)
  then show ?thesis by (simp add: names comp_def)
qed

lemma denied: "allowed h op p r = Inl e \<Longrightarrow> sh_deny h op p = Some e \<or> r = Inl e"
  "allowed h op p r = Inr v \<Longrightarrow> r = Inr v"
  by (auto simp: allowed_def split: option.splits)

section \<open>Copying\<close>

text \<open>What copying needs: neither path is below the other, the way to the destination is
  directories, what is below the source hangs together and is not deeper than the bound.\<close>

definition copyable :: "string list \<Rightarrow> string list \<Rightarrow> nat \<Rightarrow> (string list \<Rightarrow> entry option) \<Rightarrow> bool" where
  "copyable src dest n f \<longleftrightarrow>
     \<not> is_below src dest \<and> \<not> is_below dest src \<and> (\<forall>q. is_below q dest \<longrightarrow> f q = Some Directory) \<and>
     (\<forall>r x. f (src @ r @ [x]) \<noteq> None \<longrightarrow> f (src @ r) = Some Directory) \<and>
     (\<forall>r. f (src @ r) \<noteq> None \<longrightarrow> length r < n)"

text \<open>What it gives for the entries with these names.\<close>

definition names_copied :: "string list \<Rightarrow> string list \<Rightarrow> string set \<Rightarrow> (string list \<Rightarrow> entry option) \<Rightarrow>
    (string list \<Rightarrow> entry option) \<Rightarrow> bool" where
  "names_copied src dest X f g \<longleftrightarrow>
     (\<forall>x\<in>X. \<forall>r. g (dest @ x # r) = f (src @ x # r)) \<and> (\<forall>q. (\<forall>x\<in>X. \<not> is_below (dest @ [x]) q) \<longrightarrow> g q = f q)"

definition denies :: "spec_host \<Rightarrow> io_error \<Rightarrow> bool" where
  "denies h e \<longleftrightarrow> (\<exists>op p. sh_deny h op p = Some e)"

lemma deniesI: "sh_deny h op p = Some e \<Longrightarrow> denies h e"
  unfolding denies_def by blast

lemma disjoint_below:
  assumes "\<not> is_below src dest" and "\<not> is_below dest src"
  shows "\<not> is_below dest (src @ r)" and "\<not> is_below (dest @ r) (src @ r')"
  using assms by (auto simp: is_below_iff append_eq_append_conv2)

lemma snoc_below: "is_below q (dest @ [x]) \<longleftrightarrow> is_below q dest \<or> q = dest @ [x]"
  by (auto simp: is_below_iff append_eq_append_conv2 append_eq_Cons_conv Cons_eq_append_conv)

lemma copyable_child:
  assumes "copyable src dest (Suc n) f" and "g (dest @ [x]) = Some Directory"
    and "\<And>q. q \<noteq> dest @ [x] \<Longrightarrow> g q = f q"
  shows "copyable (src @ [x]) (dest @ [x]) n g"
proof -
  have dis: "\<not> is_below src dest" "\<not> is_below dest src" using assms(1) by (simp_all add: copyable_def)
  have ne: "src @ r \<noteq> dest @ [x]" for r using disjoint_below(1) [OF dis, of r] by auto
  have same: "g (src @ r) = f (src @ r)" for r using assms(3) ne by simp
  have "\<not> is_below (src @ [x]) (dest @ [x])" "\<not> is_below (dest @ [x]) (src @ [x])"
    by (rule disjoint_below(2) [OF dis(2,1)], rule disjoint_below(2) [OF dis])
  moreover have "g q = Some Directory" if "is_below q (dest @ [x])" for q
    using that assms by (cases "q = dest @ [x]") (auto simp: snoc_below copyable_def)
  moreover have "g ((src @ [x]) @ r) = Some Directory" if "g ((src @ [x]) @ r @ [y]) \<noteq> None" for r y
    using that assms(1) same [of "[x] @ r"] same [of "[x] @ r @ [y]"] unfolding copyable_def
    by (metis append.assoc)
  moreover have "length r < n" if "g ((src @ [x]) @ r) \<noteq> None" for r
  proof -
    have "length ([x] @ r) < Suc n" using that assms(1) same [of "[x] @ r"] unfolding copyable_def by (metis append.assoc)
    then show ?thesis by simp
  qed
  ultimately show ?thesis unfolding copyable_def by blast
qed

lemma distinct_make_directories: "distinct (map fst fs) \<Longrightarrow> distinct (map fst (fold make_directory ps fs))"
  by (induction ps arbitrary: fs) (auto simp: make_directory_def map_of_eq_None_iff)

lemma distinct_set_file: "distinct (map fst fs) \<Longrightarrow> distinct (map fst (set_file p b fs))"
  by (auto simp: set_file_def distinct_map_filter)

lemma create_child:
  assumes "copyable src dest n (map_of fs)" and "map_of fs (dest @ [x]) = None"
    and "create_dir_all h (dest @ [x]) fs = r"
  shows "case r of Inl e \<Rightarrow> denies h e
    | Inr fs' \<Rightarrow> map_of fs' = (map_of fs)(dest @ [x] \<mapsto> Directory) \<and> (distinct (map fst fs) \<longrightarrow> distinct (map fst fs'))"
proof -
  have way: "map_of fs q = Some Directory" if "is_below q dest" for q using assms(1) that by (simp add: copyable_def)
  have "\<not> (\<exists>q\<in>set (leads (dest @ [x])). \<exists>b. map_of fs q = Some (Contents b))"
    using assms(2) way by (auto simp: leads_iff snoc_below)
  moreover have "map_of (fold make_directory (leads (dest @ [x])) fs) = (map_of fs)(dest @ [x] \<mapsto> Directory)"
    using assms(2) way by (auto simp: fold_make_directory_get leads_iff snoc_below fun_eq_iff)
  ultimately show ?thesis using assms(3) distinct_make_directories
    by (auto simp: create_dir_all_def allowed_def split: option.splits intro: deniesI)
qed

lemma copy_child_file:
  assumes "copyable src dest n (map_of fs)" and "map_of fs (src @ [x]) = Some (Contents b)"
    and "map_of fs (dest @ [x]) = None" and "copy_file h (src @ [x]) (dest @ [x]) fs = r"
  shows "case r of Inl e \<Rightarrow> denies h e
    | Inr fs' \<Rightarrow> map_of fs' = (map_of fs)(dest @ [x] \<mapsto> Contents b) \<and> (distinct (map fst fs) \<longrightarrow> distinct (map fst fs'))"
proof -
  have "map_of fs dest = Some Directory" using assms(1) by (simp add: copyable_def)
  with assms(2-4) distinct_set_file show ?thesis
    by (auto simp: copy_file_def write_file_def allowed_def set_file_get fun_eq_iff split: option.splits intro: deniesI)
qed

lemma copyable_after:
  assumes "copyable src dest n f" and "names_copied src dest {x} f g"
  shows "copyable src dest n g" and "g (src @ r) = f (src @ r)"
proof -
  have dis: "\<not> is_below src dest" "\<not> is_below dest src" using assms(1) by (simp_all add: copyable_def)
  have same: "g (src @ r) = f (src @ r)" for r
    using assms(2) disjoint_below(2) [OF dis, of "[x]" r] by (simp add: names_copied_def)
  then show "g (src @ r) = f (src @ r)" .
  have "g q = f q" if "is_below q dest" for q
    using assms(2) that by (auto simp: names_copied_def is_below_iff)
  with assms(1) same show "copyable src dest n g" unfolding copyable_def by metis
qed

lemma names_copied_more:
  assumes "names_copied src dest {x} f g" and "names_copied src dest X g k" and "x \<notin> X"
    and "\<And>r. g (src @ r) = f (src @ r)"
  shows "names_copied src dest (insert x X) f k"
proof -
  have "k (dest @ x # r) = f (src @ x # r)" for r
  proof -
    have "\<forall>y\<in>X. \<not> is_below (dest @ [y]) (dest @ x # r)" using assms(3) by (auto simp: is_below_iff)
    then show ?thesis using assms(1,2) by (simp add: names_copied_def)
  qed
  with assms(1,2,4) show ?thesis by (simp add: names_copied_def)
qed

text \<open>The outcome of copying.\<close>

definition copy_outcome :: "spec_host \<Rightarrow> string list \<Rightarrow> string list \<Rightarrow> string set \<Rightarrow> file_system \<Rightarrow>
    ((io_error + unit) \<times> file_system) option \<Rightarrow> bool" where
  "copy_outcome h src dest X fs r \<longleftrightarrow>
     (\<exists>e fs'. r = Some (Inl e, fs') \<and> denies h e) \<or>
     (\<exists>fs'. r = Some (Inr (), fs') \<and> names_copied src dest X (map_of fs) (map_of fs') \<and> distinct (map fst fs'))"

lemma copied_entry:
  assumes "copyable src dest n f" and "f (src @ [x]) = Some (Contents b)" and "\<And>r. f (dest @ x # r) = None"
  shows "names_copied src dest {x} f (f(dest @ [x] \<mapsto> Contents b))"
proof -
  have "f (src @ x # r @ [y]) = None" for r y
  proof (rule ccontr)
    assume some: "f (src @ x # r @ [y]) \<noteq> None"
    have parent: "f (src @ r') = Some Directory" if "f (src @ r' @ [z]) \<noteq> None" for r' z
      using assms(1) that unfolding copyable_def by blast
    have "f (src @ x # take k r) = Some Directory" if "k \<le> length r" for k
      using that
    proof (induction "length r - k" arbitrary: k)
      case 0
      then show ?case using parent [of "x # r" y] some by simp
    next
      case (Suc m)
      then have "k < length r" by simp
      moreover have "f (src @ x # take (Suc k) r) = Some Directory" using Suc by simp
      ultimately show ?case using parent [of "x # take k r" "r ! k"] by (simp add: take_Suc_conv_app_nth)
    qed
    from this [of 0] assms(2) show False by simp
  qed
  then have "f (src @ x # r) = None" if "r \<noteq> []" for r
    using that by (metis append_butlast_last_id)
  then show ?thesis using assms(2,3) by (auto simp: names_copied_def is_below_iff)
qed

lemma copied_directory:
  assumes "copyable src dest n f" and "f (src @ [x]) = Some Directory"
    and "names_copied (src @ [x]) (dest @ [x]) UNIV (f(dest @ [x] \<mapsto> Directory)) g"
  shows "names_copied src dest {x} f g"
proof -
  have dis: "\<not> is_below src dest" "\<not> is_below dest src" using assms(1) by (simp_all add: copyable_def)
  have ne: "src @ r \<noteq> dest @ [x]" for r using disjoint_below(1) [OF dis, of r] by auto
  have below: "g (dest @ x # y # r) = f (src @ x # y # r)" for y r
    using assms(3) ne [of "x # y # r"] by (simp add: names_copied_def)
  have outside: "g q = (f(dest @ [x] \<mapsto> Directory)) q" if "\<forall>y. \<not> is_below (dest @ [x, y]) q" for q
    using assms(3) that by (simp add: names_copied_def)
  have "g (dest @ [x]) = f (src @ [x])" using outside [of "dest @ [x]"] assms(2) by (simp add: is_below_iff)
  moreover have "g q = f q" if "\<not> is_below (dest @ [x]) q" for q
    using outside [of q] that by (auto simp: is_below_iff)
  ultimately show ?thesis using below unfolding names_copied_def
    by (metis neq_Nil_conv singletonD singletonI)
qed

lemma copy_entry_outcome:
  assumes IH: "\<And>src dest fs. copyable src dest n (map_of fs) \<Longrightarrow> map_of fs src = Some Directory \<Longrightarrow>
      (\<And>y r. map_of fs (dest @ y # r) = None) \<Longrightarrow> distinct (map fst fs) \<Longrightarrow>
      copy_outcome h src dest UNIV fs (copy_dir n h src dest fs)"
    and able: "copyable src dest (Suc n) (map_of fs)" and there: "map_of fs (src @ [x]) \<noteq> None"
    and free: "\<And>r. map_of fs (dest @ x # r) = None" and dist: "distinct (map fst fs)"
  shows "copy_outcome h src dest {x} fs (copy_entry (copy_dir n h) h src dest x fs)"
proof (cases "is_dir h (src @ [x]) fs")
  case (Inl e)
  then have "denies h e" using there by (auto simp: is_dir_def allowed_def split: option.splits intro: deniesI)
  with Inl show ?thesis by (simp add: copy_outcome_def copy_entry_def)
next
  case (Inr d)
  have kind: "d \<longleftrightarrow> map_of fs (src @ [x]) = Some Directory"
    using Inr there by (auto simp: is_dir_def allowed_def split: option.splits)
  have none: "map_of fs (dest @ [x]) = None" using free [of "[]"] by simp
  show ?thesis
  proof (cases d)
    case False
    then obtain b where b: "map_of fs (src @ [x]) = Some (Contents b)" using there kind by (metis entry.exhaust option.exhaust)
    show ?thesis
      using copy_child_file [OF able b none, of h] copied_entry [OF able b free] Inr False dist
      by (cases "copy_file h (src @ [x]) (dest @ [x]) fs") (auto simp: copy_outcome_def copy_entry_def)
  next
    case True
    note create = create_child [OF able none refl, of h]
    show ?thesis
    proof (cases "create_dir_all h (dest @ [x]) fs")
      case (Inl e)
      then show ?thesis using create Inr True by (auto simp: copy_outcome_def copy_entry_def)
    next
      case made: (Inr fs')
      then have fs': "map_of fs' = (map_of fs)(dest @ [x] \<mapsto> Directory)" "distinct (map fst fs')"
        using create dist by auto
      have dir: "map_of fs (src @ [x]) = Some Directory" using kind True by simp
      have "copy_outcome h (src @ [x]) (dest @ [x]) UNIV fs' (copy_dir n h (src @ [x]) (dest @ [x]) fs')"
      proof (rule IH)
        show "copyable (src @ [x]) (dest @ [x]) n (map_of fs')"
          by (rule copyable_child [OF able]) (simp_all add: fs')
        show "map_of fs' (src @ [x]) = Some Directory" using dir by (simp add: fs')
        show "map_of fs' ((dest @ [x]) @ y # r) = None" for y r using free [of "y # r"] by (simp add: fs')
      qed (rule fs')
      then show ?thesis
        using copied_directory [OF able dir] Inr True made
        by (auto simp: copy_outcome_def copy_entry_def fs')
    qed
  qed
qed

lemma copy_entries_outcome:
  assumes IH: "\<And>src dest fs. copyable src dest n (map_of fs) \<Longrightarrow> map_of fs src = Some Directory \<Longrightarrow>
      (\<And>y r. map_of fs (dest @ y # r) = None) \<Longrightarrow> distinct (map fst fs) \<Longrightarrow>
      copy_outcome h src dest UNIV fs (copy_dir n h src dest fs)"
    and "copyable src dest (Suc n) (map_of fs)" and "\<forall>x\<in>set names. map_of fs (src @ [x]) \<noteq> None"
    and "\<forall>x\<in>set names. \<forall>r. map_of fs (dest @ x # r) = None" and "distinct (map fst fs)" and "distinct names"
  shows "copy_outcome h src dest (set names) fs (copy_entries (copy_entry (copy_dir n h) h src dest) names fs)"
  using assms(2-)
proof (induction names arbitrary: fs)
  case Nil
  then show ?case by (simp add: copy_outcome_def names_copied_def)
next
  case (Cons x xs)
  have first: "copy_outcome h src dest {x} fs (copy_entry (copy_dir n h) h src dest x fs)"
    by (rule copy_entry_outcome [OF IH Cons.prems(1)]) (use Cons.prems in auto)
  then consider (error) e fs' where "copy_entry (copy_dir n h) h src dest x fs = Some (Inl e, fs')" "denies h e"
    | (copied) fs' where "copy_entry (copy_dir n h) h src dest x fs = Some (Inr (), fs')"
        "names_copied src dest {x} (map_of fs) (map_of fs')" "distinct (map fst fs')"
    by (auto simp: copy_outcome_def)
  then show ?case
  proof cases
    case error
    then show ?thesis by (simp add: copy_outcome_def)
  next
    case (copied fs')
    note after = copyable_after [OF Cons.prems(1) copied(2)]
    have "map_of fs' (dest @ y # r) = map_of fs (dest @ y # r)" if "y \<noteq> x" for y r
      using copied(2) that by (auto simp: names_copied_def is_below_iff)
    moreover have "y \<noteq> x" if "y \<in> set xs" for y using that Cons.prems(5) by auto
    ultimately have "\<forall>y\<in>set xs. \<forall>r. map_of fs' (dest @ y # r) = None" using Cons.prems(3) by (metis list.set_intros(2))
    then have rest: "copy_outcome h src dest (set xs) fs' (copy_entries (copy_entry (copy_dir n h) h src dest) xs fs')"
      using Cons.prems after copied(3) by (intro Cons.IH) auto
    then show ?thesis
      using names_copied_more [OF copied(2) _ _ after(2)] Cons.prems(5) copied(1)
      by (auto simp: copy_outcome_def)
  qed
qed

lemma names_copied_all:
  assumes able: "copyable src dest n f" and free: "\<And>y r. f (dest @ y # r) = None"
    and names: "\<And>x. x \<notin> X \<Longrightarrow> f (src @ [x]) = None" and copied: "names_copied src dest X f g"
  shows "names_copied src dest UNIV f g"
proof -
  have "f (src @ x # r) = None" if "x \<notin> X" for x r
  proof (induction r rule: rev_induct)
    case (snoc y r)
    show ?case
    proof (rule ccontr)
      assume "f (src @ x # r @ [y]) \<noteq> None"
      then have "f (src @ (x # r)) = Some Directory" using able unfolding copyable_def by (metis append_Cons)
      with snoc show False by simp
    qed
  qed (simp add: names that)
  moreover have "g (dest @ x # r) = f (dest @ x # r)" if "x \<notin> X" for x r
  proof -
    have "\<not> is_below (dest @ [y]) (dest @ x # r)" if "y \<in> X" for y
      using that \<open>x \<notin> X\<close> by (auto simp: is_below_iff)
    then show ?thesis using copied unfolding names_copied_def by blast
  qed
  ultimately have "g (dest @ x # r) = f (src @ x # r)" for x r
    using copied free by (cases "x \<in> X") (simp_all add: names_copied_def)
  with copied show ?thesis by (simp add: names_copied_def)
qed

lemma copy_dir_outcome:
  "copyable src dest n (map_of fs) \<Longrightarrow> map_of fs src = Some Directory \<Longrightarrow> (\<And>y r. map_of fs (dest @ y # r) = None) \<Longrightarrow>
   distinct (map fst fs) \<Longrightarrow> copy_outcome h src dest UNIV fs (copy_dir n h src dest fs)"
proof (induction n arbitrary: src dest fs)
  case 0
  have "map_of fs (src @ []) \<noteq> None" using 0(2) by simp
  with 0(1) have "length ([] :: string list) < 0" unfolding copyable_def by blast
  then show ?case by simp
next
  case (Suc n)
  show ?case
  proof (cases "read_dir h src fs")
    case (Inl e)
    then have "denies h e" using Suc.prems(2) by (auto simp: read_dir_def allowed_def split: option.splits intro: deniesI)
    with Inl show ?thesis by (simp add: copy_outcome_def)
  next
    case (Inr names)
    note names = read_dir_names [OF Inr]
    have "distinct names" by (rule read_dir_distinct [OF Inr Suc.prems(4)])
    then have "copy_outcome h src dest (set names) fs (copy_entries (copy_entry (copy_dir n h) h src dest) names fs)"
      using Suc names by (intro copy_entries_outcome) auto
    moreover have "names_copied src dest UNIV (map_of fs) g" if "names_copied src dest (set names) (map_of fs) g" for g
      using names_copied_all [OF Suc.prems(1,3) _ that] names by blast
    ultimately show ?thesis using Inr by (auto simp: copy_outcome_def)
  qed
qed

section \<open>Properties\<close>

text \<open>What every file system satisfies: one entry for a path, and only directories have entries below them.\<close>

definition fs_ok :: "file_system \<Rightarrow> bool" where
  "fs_ok fs \<longleftrightarrow> distinct (map fst fs) \<and> map_of fs [] = Some Directory \<and>
     (\<forall>e \<in> set fs. fst e \<noteq> [] \<longrightarrow> map_of fs (butlast (fst e)) = Some Directory)"

lemma fs_ok_parent: "fs_ok fs \<Longrightarrow> map_of fs (q @ [x]) \<noteq> None \<Longrightarrow> map_of fs q = Some Directory"
  unfolding fs_ok_def by (metis butlast_snoc fst_conv map_of_SomeD option.exhaust snoc_eq_iff_butlast)

lemma fs_ok_way: "fs_ok fs \<Longrightarrow> map_of fs (q @ r) \<noteq> None \<Longrightarrow> r \<noteq> [] \<Longrightarrow> map_of fs q = Some Directory"
proof (induction r rule: rev_induct)
  case (snoc x r)
  then show ?case using fs_ok_parent [of fs "q @ r" x] by (cases "r = []") auto
qed simp

definition blocked :: "spec_host \<Rightarrow> string list \<Rightarrow> file_system \<Rightarrow> bool" where
  "blocked h p fs \<longleftrightarrow> (\<exists>e. denies h e) \<or> (\<exists>q b. is_below q p \<and> map_of fs q = Some (Contents b))"

lemma blockedI:
  "sh_deny h op p' = Some e \<Longrightarrow> blocked h p fs" "is_below q p \<Longrightarrow> map_of fs q = Some (Contents b) \<Longrightarrow> blocked h p fs"
  unfolding blocked_def denies_def by blast+

text \<open>The file system with an empty directory in place of what was there.\<close>

definition emptied :: "string list \<Rightarrow> (string list \<Rightarrow> entry option) \<Rightarrow> string list \<Rightarrow> entry option" where
  "emptied p f q = (if is_below q p then Some Directory else if is_below p q then None else f q)"

lemma removed_get:
  "map_of (filter (\<lambda>e. \<not> is_below p (fst e)) fs) q = (if is_below p q then None else map_of fs q)"
  using map_of_filter_key [of "\<lambda>k. \<not> is_below p k" fs q] by simp

lemma create_dir_all_cases:
  assumes "create_dir_all h p fs = r"
  shows "case r of Inl e \<Rightarrow> blocked h p fs
    | Inr fs' \<Rightarrow> map_of fs' = (\<lambda>q. if map_of fs q = None \<and> is_below q p then Some Directory else map_of fs q) \<and>
        (\<forall>q. is_below q p \<longrightarrow> map_of fs' q = Some Directory) \<and> (distinct (map fst fs) \<longrightarrow> distinct (map fst fs'))"
proof (cases r)
  case (Inl e)
  then have "(\<exists>q\<in>set (leads p). \<exists>b. map_of fs q = Some (Contents b)) \<or> sh_deny h MakeDirectories p = Some e"
    using assms by (auto simp: create_dir_all_def allowed_def split: option.splits if_splits)
  then have "blocked h p fs" by (auto simp: leads_iff intro: blockedI)
  then show ?thesis using Inl by simp
next
  case (Inr fs')
  then have no: "\<not> (\<exists>q\<in>set (leads p). \<exists>b. map_of fs q = Some (Contents b))" and fs': "fs' = fold make_directory (leads p) fs"
    using assms by (auto simp: create_dir_all_def allowed_def split: option.splits if_splits)
  have "map_of fs' q = Some Directory" if "is_below q p" for q
    using no that unfolding fs' fold_make_directory_get leads_iff by (metis entry.exhaust leads_iff option.exhaust)
  then show ?thesis
    using Inr by (simp add: fs' fold_make_directory_get leads_iff distinct_make_directories fun_eq_iff)
qed

lemma fresh_outcome:
  assumes ok: "fs_ok fs" and dir: "kernels_dir h prefix = Inr dir" and p: "p = resolve (sh_cwd h) (path_join dir name)"
  shows "(\<exists>e fs'. fresh h name prefix fs = (Inl e, fs') \<and> kind e = Io \<and> blocked h p fs) \<or>
    (\<exists>fs'. fresh h name prefix fs = (Inr (path_join dir name), fs') \<and> map_of fs' = emptied p (map_of fs) \<and> distinct (map fst fs'))"
proof (cases "if map_of fs p \<noteq> None then remove_dir_all h p fs else Inr fs")
  case (Inl e)
  then have "blocked h p fs"
    by (auto simp: remove_dir_all_def allowed_def split: if_splits option.splits entry.splits
        intro: blockedI(1) blockedI(2) [OF is_below_simps(1)])
  then show ?thesis using dir Inl by (cases e) (auto simp: fresh_def Let_def p [symmetric])
next
  case (Inr fs1)
  have none: "is_below p q \<Longrightarrow> map_of fs q = None" if "map_of fs p = None" for q
    using that fs_ok_way [OF ok, of p] by (metis append_Nil2 is_below_iff option.distinct(1))
  have "(\<forall>q. map_of fs1 q = (if is_below p q then None else map_of fs q)) \<and> distinct (map fst fs1)"
  proof (cases "map_of fs p = None")
    case True
    then have "fs1 = fs" using Inr by simp
    with none [OF True] ok show ?thesis by (simp add: fs_ok_def)
  next
    case False
    then have "fs1 = filter (\<lambda>e. \<not> is_below p (fst e)) fs"
      using Inr by (auto simp: remove_dir_all_def allowed_def split: option.splits entry.splits)
    then show ?thesis using ok by (simp add: removed_get fs_ok_def distinct_map_filter)
  qed
  then have fs1: "map_of fs1 q = (if is_below p q then None else map_of fs q)" "distinct (map fst fs1)" for q by auto
  note create = create_dir_all_cases [OF refl, of h p fs1]
  show ?thesis
  proof (cases "create_dir_all h p fs1")
    case bad: (Inl e)
    have "blocked h p fs" using create bad fs1(1) by (auto simp: blocked_def split: if_splits)
    then show ?thesis using dir Inr bad by (cases e) (auto simp: fresh_def Let_def p [symmetric])
  next
    case good: (Inr fs')
    have "map_of fs' q = emptied p (map_of fs) q" for q
      using create good fs1(1) by (auto simp: emptied_def split: if_splits)
    then show ?thesis using dir Inr good create fs1(2) by (auto simp: fresh_def Let_def p [symmetric] fun_eq_iff)
  qed
qed

lemma split_slash_append: "split_slash (a @ CHR ''/'' # b) = split_slash a @ split_slash b"
proof (induction a)
  case (Cons c a)
  have "split_slash a \<noteq> []" by (cases a) simp_all
  with Cons show ?case by simp
qed simp

lemma resolve_join:
  assumes "\<not> starts_with b ''/''"
  shows "resolve cwd (path_join a b) = fold enter_component (split_slash b) (resolve cwd a)"
proof -
  have first: "starts_with (a @ t) ''/'' \<longleftrightarrow> starts_with a ''/''" if "a \<noteq> []" for t
    using that by (cases a) (simp_all add: starts_with_def)
  consider "a = []" | a' where "a = a' @ ''/''" | "a \<noteq> []" "\<not> ends_with a ''/''"
    by (auto simp: ends_with_iff)
  then show ?thesis
  proof cases
    case 1
    with assms show ?thesis by (simp add: resolve_def path_join_def enter_component_def starts_with_def)
  next
    case (2 a')
    then have "path_join a b = a' @ CHR ''/'' # b" using assms by (simp add: path_join_def ends_with_iff)
    moreover have "starts_with (a' @ CHR ''/'' # b) ''/'' \<longleftrightarrow> starts_with a ''/''" using first [of b] 2 by simp
    ultimately show ?thesis using 2 by (simp add: resolve_def split_slash_append enter_component_def)
  next
    case 3
    then have "path_join a b = a @ CHR ''/'' # b" using assms by (simp add: path_join_def)
    with first [OF 3(1), of "CHR ''/'' # b"] show ?thesis by (simp add: resolve_def split_slash_append)
  qed
qed

text \<open>
  Writing a kernelspec: it fails only where the file system refuses, and otherwise the
  destination holds \<open>kernel.json\<close> with the printed spec and nothing else.
\<close>

lemma kernelspec_written:
  assumes ok: "fs_ok fs" and dir: "kernels_dir h prefix = Inr dir" and p: "p = resolve (sh_cwd h) (path_join dir name)"
    and printed: "sh_pretty h (kernel_spec argv display_name lang extra) = Inr t"
  shows "(\<exists>e fs'. install_kernelspec h name argv display_name lang extra prefix fs = (Inl e, fs') \<and> kind e = Io \<and> blocked h p fs) \<or>
    (\<exists>fs'. install_kernelspec h name argv display_name lang extra prefix fs = (Inr (path_join dir name), fs') \<and>
      map_of fs' = (emptied p (map_of fs))(p @ [''kernel.json''] \<mapsto> Contents t))"
proof -
  have target: "resolve (sh_cwd h) (path_join (path_join dir name) ''kernel.json'') = p @ [''kernel.json'']"
    by (subst resolve_join) (simp_all add: p [symmetric] starts_with_def enter_component_def)
  consider (bad) e fs1 where "fresh h name prefix fs = (Inl e, fs1)" "kind e = Io" "blocked h p fs"
    | (good) fs1 where "fresh h name prefix fs = (Inr (path_join dir name), fs1)" "map_of fs1 = emptied p (map_of fs)"
    using fresh_outcome [OF ok dir p] by blast
  then show ?thesis
  proof cases
    case bad
    then show ?thesis by (simp add: install_kernelspec_def)
  next
    case (good fs1)
    have "map_of fs1 p = Some Directory" "map_of fs1 (p @ [''kernel.json'']) = None"
      by (simp_all add: good(2) emptied_def) (auto simp: is_below_iff)
    then have "write_file h (p @ [''kernel.json'']) t fs1 =
        allowed h WriteFile (p @ [''kernel.json'']) (Inr (set_file (p @ [''kernel.json'']) t fs1))"
      by (simp add: write_file_def)
    then show ?thesis using good printed target blockedI(1) [of h WriteFile "p @ [''kernel.json'']"]
      by (auto simp: install_kernelspec_def allowed_def set_file_get fun_eq_iff split: option.splits)
  qed
qed


text \<open>
  C40. Installing a kernelspec directory onto itself empties it. When the source is the
  directory where the kernelspec already is, the installation reports success and leaves
  the directory empty.
\<close>

theorem kernelspec_dir_onto_itself:
  assumes ok: "fs_ok fs" and dir: "kernels_dir h prefix = Inr dir" and p: "p = resolve (sh_cwd h) (path_join dir name)"
    and same: "resolve (sh_cwd h) src = p" and free: "\<not> blocked h p fs" and fuel: "0 < n"
  shows "\<exists>fs'. install_kernelspec_dir n h src name prefix fs = Some (Inr (path_join dir name), fs') \<and>
    map_of fs' p = Some Directory \<and> (\<forall>x r. map_of fs' (p @ x # r) = None)"
proof -
  obtain fs1 where fs1: "fresh h name prefix fs = (Inr (path_join dir name), fs1)" "map_of fs1 = emptied p (map_of fs)"
    using fresh_outcome [OF ok dir p] free by blast
  have empty: "map_of fs1 p = Some Directory" "map_of fs1 (p @ x # r) = None" for x r
    by (simp_all add: fs1(2) emptied_def) (auto simp: is_below_iff)
  have "sh_deny h ReadDirectory p = None" using free blockedI(1) by (metis option.exhaust)
  with empty(1) obtain names where names: "read_dir h p fs1 = Inr names" by (simp add: read_dir_def allowed_def)
  have "names = []" using read_dir_names [OF names] empty(2) by (metis list.set_intros(1) neq_Nil_conv)
  moreover obtain m where "n = Suc m" using fuel by (cases n) auto
  ultimately have "copy_dir n h p p fs1 = Some (Inr (), fs1)" using names by simp
  with fs1(1) empty show ?thesis by (simp add: install_kernelspec_dir_def same p [symmetric])
qed

section \<open>Concrete runs\<close>

definition demo_spec_host :: spec_host where
  "demo_spec_host = \<lparr>sh_env = (\<lambda>k. if k = ''JUPYTER_DATA_DIR'' then Some ''/d'' else None), sh_cwd = [''w''],
     sh_deny = (\<lambda>_ _. None), sh_text = (\<lambda>_. ''os error''), sh_pretty = (\<lambda>_. Inr ''{}'')\<rparr>"

definition demo_fs :: file_system where
  "demo_fs = [([], Directory), ([''w''], Directory), ([''w'', ''k''], Directory), ([''w'', ''k'', ''kernel.json''], Contents ''x''),
     ([''w'', ''k'', ''a''], Directory), ([''w'', ''k'', ''a'', ''logo''], Contents ''y''),
     ([''d''], Directory), ([''d'', ''kernels''], Directory), ([''d'', ''kernels'', ''n''], Directory),
     ([''d'', ''kernels'', ''n'', ''old''], Contents ''z'')]"

lemma demo_spec_facts:
  "fs_ok demo_fs" "kernels_dir demo_spec_host None = Inr ''/d/kernels''"
  "resolve (sh_cwd demo_spec_host) (path_join ''/d/kernels'' ''n'') = [''d'', ''kernels'', ''n'']"
  "resolve (sh_cwd demo_spec_host) ''k'' = [''w'', ''k'']"
  "list_all (\<lambda>e. length (fst e) < 6) demo_fs"
  by code_simp+

lemma demo_not_blocked: "\<not> blocked demo_spec_host [''d'', ''kernels'', ''n''] demo_fs"
proof -
  have "list_all (\<lambda>q. map_of demo_fs q = Some Directory) (leads [''d'', ''kernels'', ''n''])" by code_simp
  then show ?thesis by (auto simp: blocked_def denies_def demo_spec_host_def list_all_iff leads_iff)
qed

lemma demo_depth: "\<forall>r. map_of demo_fs (s @ r) \<noteq> None \<longrightarrow> length r < 6"
  using demo_spec_facts(5) unfolding list_all_iff by (auto dest!: map_of_SomeD bspec)


theorem kernelspec_dir_onto_itself_witness:
  "\<exists>fs'. install_kernelspec_dir 6 demo_spec_host ''/d/kernels/n'' ''n'' None demo_fs = Some (Inr (path_join ''/d/kernels'' ''n''), fs') \<and>
     map_of demo_fs [''d'', ''kernels'', ''n'', ''old''] = Some (Contents ''z'') \<and> map_of fs' [''d'', ''kernels'', ''n'', ''old''] = None"
proof -
  have "resolve (sh_cwd demo_spec_host) ''/d/kernels/n'' = [''d'', ''kernels'', ''n'']"
    "map_of demo_fs [''d'', ''kernels'', ''n'', ''old''] = Some (Contents ''z'')" by code_simp+
  with kernelspec_dir_onto_itself [OF demo_spec_facts(1,2) demo_spec_facts(3) [symmetric] this(1) demo_not_blocked, of 6]
  show ?thesis by fastforce
qed

end
