(* ===== verification/Python_Session.thy ===== *)
theory Python_Session
  imports Requests
begin

text \<open>
  The Python adapter as a language (\<open>src/py/src/python.rs\<close>): exceptions and JSON at the
  boundary, what an execution's sink sends, and \<open>PyLanguageSession\<close> with the functions
  of \<open>src/kernmini/_bridge.py\<close> that it calls.

  Python objects are the values of a type parameter. What Python does with them is the record
  \<open>python\<close>: iteration, \<open>json.dumps\<close> with fastcore's fallback and the lossy
  text of its result, and \<open>json.loads\<close>. The shell that a language author writes is the
  record \<open>py_shell\<close>. Both take the moment of the call. Where the sources run a
  closure on a thread that holds the GIL, the model runs it; a panic of such a closure is
  left out. The interrupts of an execution are in \<open>User_Code\<close>.
\<close>

section \<open>Exceptions\<close>

datatype py_class = KeyboardInterruptClass | CancelledErrorClass | TimeoutErrorClass | ValueErrorClass | OSErrorClass | KernelErrorClass
  | OtherClass string

text \<open>\<open>pe_shown\<close> is the exception as \<open>Display\<close> of \<open>PyErr\<close> renders it.\<close>

record py_err =
  pe_class :: py_class
  pe_errno :: "int option"
  pe_text :: string
  pe_kind :: "string option"
  pe_cause :: "string option"
  pe_shown :: string

fun show_kind :: "error_kind \<Rightarrow> string" where
  "show_kind Interrupted = ''Interrupted''"
| "show_kind Closed = ''Closed''"
| "show_kind TimedOut = ''TimedOut''"
| "show_kind Unavailable = ''Unavailable''"
| "show_kind InvalidInput = ''InvalidInput''"
| "show_kind Io = ''Io''"
| "show_kind Protocol = ''Protocol''"
| "show_kind Adapter = ''Adapter''"

text \<open>The last I/O error in the chain of causes gives the number, the first exception the cause.\<close>

fun last_errno :: "int option \<Rightarrow> cause list \<Rightarrow> int option" where
  "last_errno n [] = n"
| "last_errno n (IoCause m t # cs) = last_errno m cs"
| "last_errno n (_ # cs) = last_errno n cs"

fun first_exception :: "cause list \<Rightarrow> string option" where
  "first_exception [] = None"
| "first_exception (PyCause t # cs) = Some t"
| "first_exception (_ # cs) = first_exception cs"

fun error_class :: "error_kind \<Rightarrow> py_class" where
  "error_class Interrupted = KeyboardInterruptClass"
| "error_class TimedOut = TimeoutErrorClass"
| "error_class InvalidInput = ValueErrorClass"
| "error_class Io = OSErrorClass"
| "error_class _ = KernelErrorClass"

text \<open>\<open>show\<close> is the rendering of an exception of a class with a number and a text.\<close>

definition py_error :: "(py_class \<Rightarrow> int option \<Rightarrow> string \<Rightarrow> string) \<Rightarrow> error \<Rightarrow> py_err" where
  "py_error show e =
     (let errno = (if kind e = Io then last_errno None (chain e) else None) in
      \<lparr>pe_class = error_class (kind e), pe_errno = errno, pe_text = show_error e, pe_kind = Some (show_kind (kind e)),
       pe_cause = first_exception (chain e), pe_shown = show (error_class (kind e)) errno (show_error e)\<rparr>)"

section \<open>Python objects\<close>

record 'v python =
  py_none :: 'v
  py_bytes :: "'v \<Rightarrow> bytes option"
  py_iter :: "nat \<Rightarrow> 'v \<Rightarrow> py_err + 'v list"
  py_is_dict :: "'v \<Rightarrow> bool"
  py_item :: "'v \<Rightarrow> string \<Rightarrow> 'v option"
  py_without :: "'v \<Rightarrow> string \<Rightarrow> 'v"
  py_cast_error :: "'v \<Rightarrow> py_err"
  py_dumps :: "nat \<Rightarrow> 'v \<Rightarrow> py_err + bytes"
  py_loads :: "nat \<Rightarrow> bytes \<Rightarrow> py_err + 'v"
  py_show :: "py_class \<Rightarrow> int option \<Rightarrow> string \<Rightarrow> string"

definition py_to_json :: "crates \<Rightarrow> 'v python \<Rightarrow> nat \<Rightarrow> 'v \<Rightarrow> py_err + json" where
  "py_to_json c py n v =
     (case py_dumps py n v of
        Inl e \<Rightarrow> Inl e
      | Inr t \<Rightarrow> (case from_slice c t of Inl e \<Rightarrow> Inl (py_error (py_show py) (from_json e)) | Inr j \<Rightarrow> Inr j))"

text \<open>\<open>Value::to_string\<close> prints every value; where the printing crate reports an error the text is empty.\<close>

definition json_to_py :: "crates \<Rightarrow> 'v python \<Rightarrow> nat \<Rightarrow> json \<Rightarrow> py_err + 'v" where
  "json_to_py c py n j = py_loads py n (case to_vec c j of Inr t \<Rightarrow> t | Inl _ \<Rightarrow> [])"

fun cast_all :: "'v python \<Rightarrow> 'v list \<Rightarrow> py_err + bytes list" where
  "cast_all py [] = Inr []"
| "cast_all py (v # vs) =
     (case py_bytes py v of
        None \<Rightarrow> Inl (py_cast_error py v)
      | Some b \<Rightarrow> (case cast_all py vs of Inl e \<Rightarrow> Inl e | Inr bs \<Rightarrow> Inr (b # bs)))"

definition py_buffers :: "'v python \<Rightarrow> nat \<Rightarrow> 'v \<Rightarrow> py_err + bytes list" where
  "py_buffers py n v =
     (if v = py_none py then Inr []
      else case py_iter py n v of Inl e \<Rightarrow> Inl e | Inr vs \<Rightarrow> cast_all py vs)"

section \<open>The sink of an execution\<close>

text \<open>
  \<open>listening\<close> says whether the output pump still receives, which is what
  \<open>emit\<close> and \<open>emit_blocking\<close> depend on.
\<close>

definition emit_blocking :: "'v python \<Rightarrow> bool \<Rightarrow> language_event \<Rightarrow> py_err + language_event" where
  "emit_blocking py listening e = (if listening then Inr e else Inl (py_error (py_show py) from_send))"

definition sink_publish :: "crates \<Rightarrow> 'v python \<Rightarrow> nat \<Rightarrow> bool \<Rightarrow> string \<Rightarrow> 'v \<Rightarrow> 'v \<Rightarrow> 'v \<Rightarrow> 'v \<Rightarrow> py_err + language_event" where
  "sink_publish c py n listening t body meta ident bufs =
     (case (if ident = py_none py then Inr None
            else case py_bytes py ident of None \<Rightarrow> Inl (py_cast_error py ident) | Some b \<Rightarrow> Inr (Some b)) of
        Inl e \<Rightarrow> Inl e
      | Inr i \<Rightarrow>
          (case py_to_json c py n body of
             Inl e \<Rightarrow> Inl e
           | Inr jc \<Rightarrow>
               (case py_to_json c py n meta of
                  Inl e \<Rightarrow> Inl e
                | Inr jm \<Rightarrow>
                    (case py_buffers py n bufs of
                       Inl e \<Rightarrow> Inl e
                     | Inr bs \<Rightarrow> emit_blocking py listening (Message t jc jm i bs)))))"

definition sink_stream :: "'v python \<Rightarrow> bool \<Rightarrow> string \<Rightarrow> string \<Rightarrow> py_err + language_event" where
  "sink_stream py listening name text = emit_blocking py listening (Stream name text)"

definition sink_display :: "crates \<Rightarrow> 'v python \<Rightarrow> nat \<Rightarrow> bool \<Rightarrow> 'v \<Rightarrow> py_err + language_event" where
  "sink_display c py n listening v =
     (if \<not> py_is_dict py v then Inl (py_cast_error py v)
      else
        case (case py_item py v ''buffers'' of None \<Rightarrow> Inr [] | Some b \<Rightarrow> py_buffers py n b) of
          Inl e \<Rightarrow> Inl e
        | Inr bs \<Rightarrow>
            let clean = (if py_item py v ''buffers'' = None then v else py_without py v ''buffers'') in
            (case py_to_json c py n clean of
               Inl e \<Rightarrow> Inl e
             | Inr j \<Rightarrow> emit_blocking py listening (Display j bs)))"

definition sink_input :: "'v python \<Rightarrow> execution_context \<Rightarrow> execution_interrupt \<Rightarrow> string \<Rightarrow> bool \<Rightarrow> py_err + context_message" where
  "sink_input py ctx i prompt password =
     (case context_input ctx i prompt password of Inl e \<Rightarrow> Inl (py_error (py_show py) e) | Inr m \<Rightarrow> Inr m)"

definition sink_open_subshell :: "'v python \<Rightarrow> execution_context \<Rightarrow> string option \<Rightarrow> nat \<Rightarrow> py_err + session_command" where
  "sink_open_subshell py ctx subshell_id reply_to =
     (case open_subshell ctx subshell_id reply_to of Inl e \<Rightarrow> Inl (py_error (py_show py) e) | Inr m \<Rightarrow> Inr m)"

definition sink_close_subshell :: "'v python \<Rightarrow> execution_context \<Rightarrow> string \<Rightarrow> bool \<Rightarrow> nat \<Rightarrow> py_err + session_command" where
  "sink_close_subshell py ctx subshell_id delete reply_to =
     (case close_subshell ctx subshell_id delete reply_to of Inl e \<Rightarrow> Inl (py_error (py_show py) e) | Inr m \<Rightarrow> Inr m)"

definition sink_parent :: "crates \<Rightarrow> 'v python \<Rightarrow> nat \<Rightarrow> execution_context \<Rightarrow> py_err + 'v" where
  "sink_parent c py n ctx = json_to_py c py n (ctx_parent ctx)"

section \<open>The shell\<close>

text \<open>
  An execution gives what it sent through its sink, whether an interrupt was requested while
  it ran, and its result. \<open>sh_listening\<close> is for the messages sent after it.
\<close>

record 'v py_shell =
  sh_hasattr :: "nat \<Rightarrow> string \<Rightarrow> py_err + bool"
  sh_kernel_info :: "nat \<Rightarrow> py_err + 'v"
  sh_execute :: "nat \<Rightarrow> execute_request \<Rightarrow> 'v \<Rightarrow> execution_context \<Rightarrow> context_message list list \<times> bool \<times> (py_err + 'v)"
  sh_listening :: "nat \<Rightarrow> nat \<Rightarrow> bool"
  sh_method :: "nat \<Rightarrow> string \<Rightarrow> 'v \<Rightarrow> py_err + 'v"
  sh_debug_request :: "nat \<Rightarrow> 'v \<Rightarrow> py_err + 'v"
  sh_set_callback :: "nat \<Rightarrow> py_err + unit"
  sh_output_context :: "nat \<Rightarrow> py_err + unit"
  sh_message :: "nat \<Rightarrow> string \<Rightarrow> 'v \<Rightarrow> bytes list \<Rightarrow> execution_context \<Rightarrow> context_message list list \<times> (py_err + unit)"
  sh_shutdown :: "nat \<Rightarrow> py_err + unit"

text \<open>The functions of the bridge.\<close>

definition bridge_request :: "'v python \<Rightarrow> 'v py_shell \<Rightarrow> nat \<Rightarrow> string \<Rightarrow> 'v \<Rightarrow> py_err + 'v" where
  "bridge_request py sh n name body =
     (case sh_hasattr sh n name of
        Inl e \<Rightarrow> Inl e
      | Inr has \<Rightarrow> if \<not> has then Inr (py_none py) else sh_method sh n name body)"

definition bridge_shutdown :: "'v py_shell \<Rightarrow> nat \<Rightarrow> py_err + unit" where
  "bridge_shutdown sh n =
     (case sh_hasattr sh n ''shutdown'' of Inl e \<Rightarrow> Inl e | Inr has \<Rightarrow> if has then sh_shutdown sh n else Inr ())"

definition bridge_message :: "'v py_shell \<Rightarrow> nat \<Rightarrow> string \<Rightarrow> 'v \<Rightarrow> bytes list \<Rightarrow> execution_context \<Rightarrow>
    context_message list list \<times> (py_err + unit)" where
  "bridge_message sh n t body bufs ctx =
     (case sh_hasattr sh n ''output_context'' of
        Inl e \<Rightarrow> ([], Inl e)
      | Inr has_context \<Rightarrow>
          (case (if has_context then sh_output_context sh n else Inr ()) of
             Inl e \<Rightarrow> ([], Inl e)
           | Inr _ \<Rightarrow>
               (case sh_hasattr sh n ''message'' of
                  Inl e \<Rightarrow> ([], Inl e)
                | Inr has \<Rightarrow> if has then sh_message sh n t body bufs ctx else ([], Inr ()))))"

section \<open>The session\<close>

text \<open>\<open>attach\<close> and \<open>attach_blocking\<close> turn an exception into an error of the adapter.\<close>

definition attach :: "py_err + 'a \<Rightarrow> 'a result" where
  "attach r = (case r of Inl e \<Rightarrow> Inl (adapter (PyCause (pe_shown e))) | Inr v \<Rightarrow> Inr v)"

definition session_request :: "crates \<Rightarrow> 'v python \<Rightarrow> 'v py_shell \<Rightarrow> nat \<Rightarrow> string \<Rightarrow> json \<Rightarrow> json option result" where
  "session_request c py sh n name body =
     (case attach (json_to_py c py n body) of
        Inl e \<Rightarrow> Inl e
      | Inr v \<Rightarrow>
          (case attach (bridge_request py sh n name v) of
             Inl e \<Rightarrow> Inl e
           | Inr r \<Rightarrow>
               if r = py_none py then Inr None
               else (case attach (py_to_json c py n r) of Inl e \<Rightarrow> Inl e | Inr j \<Rightarrow> Inr (Some j))))"

definition or_default :: "json \<Rightarrow> json option result \<Rightarrow> json result" where
  "or_default d r = (case r of Inl e \<Rightarrow> Inl e | Inr None \<Rightarrow> Inr d | Inr (Some j) \<Rightarrow> Inr j)"

definition str_or :: "string \<Rightarrow> json \<Rightarrow> string" where
  "str_or d v = (case as_str v of Some s \<Rightarrow> s | None \<Rightarrow> d)"

definition get_or :: "json \<Rightarrow> json \<Rightarrow> string \<Rightarrow> json" where
  "get_or d v k = (case json_get v k of Some u \<Rightarrow> u | None \<Rightarrow> d)"

definition get_some :: "json \<Rightarrow> string \<Rightarrow> json option" where
  "get_some v k = (case json_get v k of Some u \<Rightarrow> if u = JNull then None else Some u | None \<Rightarrow> None)"

definition session_kernel_info :: "crates \<Rightarrow> 'v python \<Rightarrow> 'v py_shell \<Rightarrow> nat \<Rightarrow> kernel_info result" where
  "session_kernel_info c py sh n =
     attach (case sh_kernel_info sh n of
        Inl e \<Rightarrow> Inl e
      | Inr r \<Rightarrow>
          (case py_to_json c py n r of
             Inl e \<Rightarrow> Inl e
           | Inr v \<Rightarrow> Inr \<lparr>implementation = str_or ''python'' (json_index v ''implementation''),
               implementation_version = str_or ''0'' (json_index v ''implementation_version''),
               banner = str_or '''' (json_index v ''banner''), language_info = get_or (JObj []) v ''language_info''\<rparr>))"

fun all_strings :: "json list \<Rightarrow> string list option" where
  "all_strings [] = Some []"
| "all_strings (v # vs) =
     (case as_str v of None \<Rightarrow> None | Some s \<Rightarrow> (case all_strings vs of None \<Rightarrow> None | Some ss \<Rightarrow> Some (s # ss)))"

definition session_features :: "crates \<Rightarrow> 'v python \<Rightarrow> 'v py_shell \<Rightarrow> nat \<Rightarrow> string list" where
  "session_features c py sh n =
     (case sh_kernel_info sh n of
        Inl e \<Rightarrow> []
      | Inr r \<Rightarrow>
          (case py_to_json c py n r of
             Inl e \<Rightarrow> []
           | Inr v \<Rightarrow>
               (case json_index v ''supported_features'' of
                  JArr vs \<Rightarrow> (case all_strings vs of Some ss \<Rightarrow> ss | None \<Rightarrow> [])
                | _ \<Rightarrow> [])))"

definition session_debugger :: "'v py_shell \<Rightarrow> nat \<Rightarrow> bool" where
  "session_debugger sh n = (case sh_hasattr sh n ''debug_request'' of Inl _ \<Rightarrow> False | Inr b \<Rightarrow> b)"

definition session_debug_sender :: "'v py_shell \<Rightarrow> nat \<Rightarrow> unit result" where
  "session_debug_sender sh n =
     attach (case sh_hasattr sh n ''debugger'' of Inl e \<Rightarrow> Inl e | Inr b \<Rightarrow> if b then sh_set_callback sh n else Inr ())"

text \<open>\<open>DebugRouter\<close>: the event that goes to the debug sender.\<close>

definition debug_router :: "crates \<Rightarrow> 'v python \<Rightarrow> nat \<Rightarrow> 'v \<Rightarrow> py_err + json" where
  "debug_router c py n v = py_to_json c py n v"

definition session_debug :: "crates \<Rightarrow> 'v python \<Rightarrow> 'v py_shell \<Rightarrow> nat \<Rightarrow> json \<Rightarrow> json result" where
  "session_debug c py sh n req =
     (if \<not> session_debugger sh n then Inr debug_default
      else attach (case json_to_py c py n req of
        Inl e \<Rightarrow> Inl e
      | Inr v \<Rightarrow> (case sh_debug_request sh n v of Inl e \<Rightarrow> Inl e | Inr r \<Rightarrow> py_to_json c py n r)))"

subsection \<open>Executions\<close>

text \<open>\<open>None\<close> is an execution that an interrupt ended.\<close>

definition execution_value :: "crates \<Rightarrow> 'v python \<Rightarrow> nat \<Rightarrow> bool \<Rightarrow> py_err + 'v \<Rightarrow> py_err + json option" where
  "execution_value c py n was_interrupted r =
     (case r of
        Inl e \<Rightarrow> if was_interrupted \<and> (pe_class e = CancelledErrorClass \<or> pe_class e = KeyboardInterruptClass)
          then Inr None else Inl e
      | Inr v \<Rightarrow> (case py_to_json c py n v of Inl e \<Rightarrow> Inl e | Inr j \<Rightarrow> Inr (Some j)))"

definition value_events :: "json \<Rightarrow> language_event list" where
  "value_events v =
     (case Option.bind (json_get v ''streams'') as_array of
        None \<Rightarrow> []
      | Some ss \<Rightarrow> map (\<lambda>s. Stream (str_or ''stdout'' (json_index s ''name'')) (str_or '''' (json_index s ''text''))) ss) @
     (case Option.bind (json_get v ''display'') as_array of
        None \<Rightarrow> []
      | Some ds \<Rightarrow> map (\<lambda>d. Display d []) ds)"

fun emit_all :: "(nat \<Rightarrow> bool) \<Rightarrow> nat \<Rightarrow> language_event list \<Rightarrow> language_event list \<times> unit result" where
  "emit_all listening k [] = ([], Inr ())"
| "emit_all listening k (e # es) =
     (if listening k then (let (sent, r) = emit_all listening (Suc k) es in (e # sent, r))
      else ([], Inl from_send))"

definition value_error :: "bool \<Rightarrow> json \<Rightarrow> language_error option" where
  "value_error was_interrupted v =
     (case get_some v ''error'' of
        None \<Rightarrow> None
      | Some e \<Rightarrow>
          let err = \<lparr>ename = str_or ''Error'' (json_index e ''ename''), evalue = str_or '''' (json_index e ''evalue''),
                traceback = (case as_array (json_index e ''traceback'') of None \<Rightarrow> [] | Some ls \<Rightarrow> List.map_filter as_str ls)\<rparr>
          in Some (if was_interrupted \<and> ename err = ''CancelledError''
                   then \<lparr>ename = ''KeyboardInterrupt'', evalue = '''', traceback = []\<rparr> else err))"

definition value_outcome :: "bool \<Rightarrow> json \<Rightarrow> execute_outcome" where
  "value_outcome was_interrupted v =
     \<lparr>out_result = get_some v ''result'', out_result_metadata = get_or (JObj []) v ''result_metadata'',
      out_error = value_error was_interrupted v, out_user_expressions = get_or (JObj []) v ''user_expressions'',
      out_payload = get_or (JArr []) v ''payload''\<rparr>"

definition session_execute :: "crates \<Rightarrow> 'v python \<Rightarrow> 'v py_shell \<Rightarrow> nat \<Rightarrow> execute_request \<Rightarrow> execution_context \<Rightarrow>
    context_message list list \<times> execute_outcome result" where
  "session_execute c py sh n ex ctx =
     (case attach (json_to_py c py n (er_user_expressions ex)) of
        Inl e \<Rightarrow> ([], Inl e)
      | Inr exprs \<Rightarrow>
          let (batches, was_interrupted, r) = sh_execute sh n ex exprs ctx in
          case attach (execution_value c py n was_interrupted r) of
            Inl e \<Rightarrow> (batches, Inl e)
          | Inr None \<Rightarrow> (batches, Inl (error_new Interrupted ''execution interrupted''))
          | Inr (Some v) \<Rightarrow>
              let (sent, emitted) = emit_all (sh_listening sh n) 0 (value_events v) in
              (batches @ [map Event sent],
               case emitted of Inl e \<Rightarrow> Inl e | Inr _ \<Rightarrow> Inr (value_outcome was_interrupted v)))"

definition session_on_message :: "crates \<Rightarrow> 'v python \<Rightarrow> 'v py_shell \<Rightarrow> nat \<Rightarrow> language_message \<Rightarrow> execution_context \<Rightarrow>
    context_message list list \<times> unit result" where
  "session_on_message c py sh n m ctx =
     (case attach (json_to_py c py n (lm_content m)) of
        Inl e \<Rightarrow> ([], Inl e)
      | Inr v \<Rightarrow> (case bridge_message sh n (lm_msg_type m) v (lm_buffers m) ctx of (batches, r) \<Rightarrow> (batches, attach r)))"

text \<open>\<open>child\<close> is the shutdown of the session's child loop, where it has one.\<close>

definition session_shutdown :: "'v py_shell \<Rightarrow> (nat \<Rightarrow> unit result) option \<Rightarrow> nat \<Rightarrow> unit result" where
  "session_shutdown sh child n =
     (let r = attach (bridge_shutdown sh n) in
      case child of
        None \<Rightarrow> r
      | Some stop \<Rightarrow> (case stop n of Inl e \<Rightarrow> Inl e | Inr _ \<Rightarrow> r))"

definition py_session :: "crates \<Rightarrow> 'v python \<Rightarrow> (nat \<Rightarrow> unit result) option \<Rightarrow> 'v py_shell \<Rightarrow> language" where
  "py_session c py child sh =
     \<lparr>lang_kernel_info = session_kernel_info c py sh, lang_supports_debugger = session_debugger sh,
      lang_supported_features = session_features c py sh, lang_set_debug_sender = session_debug_sender sh,
      lang_set_kernel_context = (\<lambda>_ _. Inr ()), lang_execute = session_execute c py sh,
      lang_complete = (\<lambda>n r. or_default (complete_default (cr_cursor_pos r)) (session_request c py sh n ''complete''
        (JObj [(''code'', JStr (cr_code r)), (''cursor_pos'', jnat (cr_cursor_pos r))]))),
      lang_inspect = (\<lambda>n r. or_default inspect_default (session_request c py sh n ''inspect''
        (JObj [(''code'', JStr (ir_code r)), (''cursor_pos'', jnat (ir_cursor_pos r)), (''detail_level'', jnat (ir_detail_level r))]))),
      lang_is_complete = (\<lambda>n code. or_default is_complete_default (session_request c py sh n ''is_complete'' (JObj [(''code'', JStr code)]))),
      lang_history = (\<lambda>n v. or_default history_default (session_request c py sh n ''history'' v)),
      lang_comm_info = (\<lambda>n v. or_default comm_info_default (session_request c py sh n ''comm_info'' v)),
      lang_debug = session_debug c py sh, lang_message = session_on_message c py sh,
      lang_shutdown = session_shutdown sh child\<rparr>"

section \<open>Lemmas\<close>

declare chain_context [simp]

lemma contexts:
  "kind (foldl context_err e ms) = kind e"
  "first_exception (chain (foldl context_err e ms)) = first_exception (chain e)"
  "last_errno n (chain (foldl context_err e ms)) = last_errno n (chain e)"
  by (induction ms arbitrary: e) simp_all

lemma emit_all_listening: "(\<And>k. listening k) \<Longrightarrow> emit_all listening k es = (es, Inr ())"
  by (induction es arbitrary: k) simp_all

text \<open>How an execution that an interrupt reached can end.\<close>

definition ends_interrupted :: "crates \<Rightarrow> 'v python \<Rightarrow> nat \<Rightarrow> bool \<times> (py_err + 'v) \<Rightarrow> bool" where
  "ends_interrupted c py n x \<longleftrightarrow> fst x \<and>
     (case snd x of
        Inl e \<Rightarrow> pe_class e = CancelledErrorClass \<or> pe_class e = KeyboardInterruptClass
      | Inr v \<Rightarrow> (case py_to_json c py n v of
            Inl e \<Rightarrow> False
          | Inr j \<Rightarrow> (case get_some j ''error'' of
                None \<Rightarrow> False
              | Some e \<Rightarrow> str_or ''Error'' (json_index e ''ename'') \<in> {''CancelledError'', ''KeyboardInterrupt''})))"

lemma session_execute_interrupted:
  assumes "json_to_py c py n (er_user_expressions ex) = Inr u" and "sh_execute sh n ex u ctx = (batches, x)"
    and "ends_interrupted c py n x" and "\<And>k. sh_listening sh n k"
  obtains (raised) e where "session_execute c py sh n ex ctx = (batches, Inl e)" "kind e = Interrupted"
  | (reported) es out err where "session_execute c py sh n ex ctx = (batches @ [map Event es], Inr out)"
      "out_error out = Some err" "ename err = ''KeyboardInterrupt''"
proof (cases "snd x")
  case (Inl e)
  obtain b where x: "x = (True, Inl e)" using assms(3) Inl by (cases x) (auto simp: ends_interrupted_def)
  with assms have "session_execute c py sh n ex ctx = (batches, Inl (error_new Interrupted ''execution interrupted''))"
    by (auto simp: session_execute_def attach_def ends_interrupted_def execution_value_def)
  then show ?thesis by (rule raised) simp
next
  case (Inr v)
  have x: "x = (True, Inr v)" using assms(3) Inr by (cases x) (auto simp: ends_interrupted_def)
  with assms(3) obtain j e where j: "py_to_json c py n v = Inr j" "get_some j ''error'' = Some e"
    "str_or ''Error'' (json_index e ''ename'') \<in> {''CancelledError'', ''KeyboardInterrupt''}"
    by (auto simp: ends_interrupted_def split: sum.splits option.splits)
  have run: "session_execute c py sh n ex ctx = (batches @ [map Event (value_events j)], Inr (value_outcome True j))"
    using assms(1,2,4) x j(1) by (simp add: session_execute_def attach_def execution_value_def emit_all_listening)
  obtain err where "value_error True j = Some err" "ename err = ''KeyboardInterrupt''"
    using j(2,3) by (auto simp: value_error_def Let_def)
  then show ?thesis by (intro reported [OF run, of err]) (simp_all add: value_outcome_def)
qed

section \<open>Properties\<close>

text \<open>
  C30. An interrupted Python cell is reported as interrupted. When an interrupt reached an
  execution and its task ended in an uncaught \<open>CancelledError\<close> or
  \<open>KeyboardInterrupt\<close>, or its shell reported one of them, the engine sends exactly one
  reply, with status error and the name \<open>KeyboardInterrupt\<close>.
\<close>

theorem interrupted_python_reply:
  assumes "encodes (svc_shared svc)" and "svc_language svc = py_session c py child sh"
    and "msg_type (message ib) = ''execute_request''"
    and "\<forall>n. \<exists>u. json_to_py c py n (er_user_expressions ex) = Inr u"
    and "\<forall>n u ctx. ends_interrupted c py n (snd (sh_execute sh n ex u ctx))" and "\<forall>n k. sh_listening sh n k"
  shows "\<exists>pubs body r.
    runs (run_execution svc ib ex k) w
      (busy (message ib) # pubs @ [Rep (reply ib) (notice ''execute_reply'' body (message ib)), idle (message ib)]) r (world.more w) \<and>
    (\<forall>e\<in>set pubs. published_under (message ib) e) \<and>
    json_get body ''status'' = Some (JStr ''error'') \<and> json_get body ''ename'' = Some (JStr ''KeyboardInterrupt'')"
proof -
  let ?req = "message ib"
  from run_execution_runs [OF assms(1) refl assms(3), of ex k w] obtain n batches outcome where
    lang: "session_execute c py sh n ex (output_context (svc_shared svc) ?req (Some (identity ib)) k) = (batches, outcome)"
    and run: "runs (run_execution svc ib ex k) w
      (busy ?req # (execute_events ?req ex k batches outcome @ run_error_events ?req k outcome) @
       [Rep (reply ib) (notice ''execute_reply'' (run_reply ?req k outcome) ?req), idle ?req])
      (run_result ?req outcome) (world.more w)"
    by (auto simp: assms(2) py_session_def)
  obtain u where u: "json_to_py c py n (er_user_expressions ex) = Inr u" using assms(4) by blast
  let ?ctx = "output_context (svc_shared svc) ?req (Some (identity ib)) k"
  obtain bs x where x: "sh_execute sh n ex u ?ctx = (bs, x)" by (cases "sh_execute sh n ex u ?ctx")
  have "ends_interrupted c py n x" using assms(5) x by (metis snd_conv)
  then have "json_get (run_reply ?req k outcome) ''status'' = Some (JStr ''error'') \<and>
      json_get (run_reply ?req k outcome) ''ename'' = Some (JStr ''KeyboardInterrupt'')"
  proof (rule session_execute_interrupted [OF u x])
    show "sh_listening sh n i" for i using assms(6) by simp
  next
    fix e assume "session_execute c py sh n ex ?ctx = (bs, Inl e)" and kind: "kind e = Interrupted"
    with lang have "outcome = Inl e" by simp
    with kind show ?thesis using assms(3)
      by (simp add: run_reply_def failure_content_def error_content_def obj_extend_def)
  next
    fix es out err assume "session_execute c py sh n ex ?ctx = (bs @ [map Event es], Inr out)"
      and err: "out_error out = Some err" "ename err = ''KeyboardInterrupt''"
    with lang have "outcome = Inr out" by simp
    with err show ?thesis by (simp add: run_reply_def outcome_reply_def)
  qed
  moreover have "\<forall>e\<in>set (execute_events ?req ex k batches outcome @ run_error_events ?req k outcome). published_under ?req e"
    by (auto dest: execute_events_under simp: run_error_events_def split: sum.splits)
  ultimately show ?thesis using run by blast
qed



text \<open>Python with JSON values as its objects, and a shell that ends its executions in a cancellation.\<close>

definition demo_python :: "json python" where
  "demo_python = \<lparr>py_none = JNull, py_bytes = (\<lambda>_. None), py_iter = (\<lambda>_ v. Inr []), py_is_dict = (\<lambda>_. False),
     py_item = (\<lambda>_ _. None), py_without = (\<lambda>v _. v), py_cast_error = (\<lambda>_. py_error (\<lambda>_ _ t. t) interrupted),
     py_dumps = (\<lambda>_ _. Inr ''null''), py_loads = (\<lambda>_ _. Inr JNull), py_show = (\<lambda>_ _ t. t)\<rparr>"

definition demo_cancelled :: py_err where
  "demo_cancelled = \<lparr>pe_class = CancelledErrorClass, pe_errno = None, pe_text = ''cancelled'', pe_kind = None, pe_cause = None,
     pe_shown = ''CancelledError''\<rparr>"

definition demo_py_shell :: "json py_shell" where
  "demo_py_shell = \<lparr>sh_hasattr = (\<lambda>_ _. Inr False), sh_kernel_info = (\<lambda>_. Inr JNull),
     sh_execute = (\<lambda>_ ex _ _. ([[Event (Stream ''stdout'' (er_code ex))]], True, Inl demo_cancelled)), sh_listening = (\<lambda>_ _. True),
     sh_method = (\<lambda>_ _ _. Inr JNull), sh_debug_request = (\<lambda>_ _. Inr JNull), sh_set_callback = (\<lambda>_. Inr ()),
     sh_output_context = (\<lambda>_. Inr ()), sh_message = (\<lambda>_ _ _ _ _. ([], Inr ())), sh_shutdown = (\<lambda>_. Inr ())\<rparr>"

definition demo_py_services :: shell_services where
  "demo_py_services = \<lparr>svc_language = py_session demo_crates demo_python None demo_py_shell, svc_shared = demo_services\<rparr>"

theorem interrupted_python_reply_witness:
  "\<exists>pubs body r.
    runs (run_execution demo_py_services (demo_request ''execute_request'' (JObj [(''code'', JStr ''1'')]) [] 5)
        (to_execute_request (JObj [(''code'', JStr ''1'')])) 1) demo_world
      (busy (message (demo_request ''execute_request'' (JObj [(''code'', JStr ''1'')]) [] 5)) # pubs @
       [Rep 5 (notice ''execute_reply'' body (message (demo_request ''execute_request'' (JObj [(''code'', JStr ''1'')]) [] 5))),
        idle (message (demo_request ''execute_request'' (JObj [(''code'', JStr ''1'')]) [] 5))]) r () \<and>
    json_get body ''ename'' = Some (JStr ''KeyboardInterrupt'')"
proof -
  let ?ib = "demo_request ''execute_request'' (JObj [(''code'', JStr ''1'')]) [] 5"
  let ?ex = "to_execute_request (JObj [(''code'', JStr ''1'')])"
  have "encodes (svc_shared demo_py_services)" by (simp add: demo_py_services_def demo_encodes)
  moreover have "svc_language demo_py_services = py_session demo_crates demo_python None demo_py_shell"
    by (simp add: demo_py_services_def)
  moreover have "msg_type (message ?ib) = ''execute_request''" by code_simp
  moreover have "\<forall>n. \<exists>u. json_to_py demo_crates demo_python n (er_user_expressions ?ex) = Inr u"
    by (simp add: json_to_py_def demo_python_def)
  moreover have "\<forall>n u ctx. ends_interrupted demo_crates demo_python n (snd (sh_execute demo_py_shell n ?ex u ctx))"
    by (simp add: ends_interrupted_def demo_py_shell_def demo_cancelled_def)
  moreover have "\<forall>n k. sh_listening demo_py_shell n k" by (simp add: demo_py_shell_def)
  moreover have "reply ?ib = 5" "world.more demo_world = ()" by (simp_all add: demo_request_def)
  ultimately show ?thesis
    using interrupted_python_reply [of demo_py_services demo_crates demo_python None demo_py_shell ?ib ?ex 1 demo_world] by metis
qed


end
