(* ===== verification/Python_Children.thy ===== *)
theory Python_Children
  imports Python_Session Thread_Worker Kernelspec
begin

text \<open>
  The rest of the adapter's language (\<open>src/py/src/python.rs\<close>): the thread and the event
  loop of a child session, from \<open>create_child\<close> to its shutdown or drop, the language
  with its children, the end of \<open>run_kernel\<close>, the installation of kernelspecs, and the worker of
  \<open>src/py/src/python_worker.rs\<close>.

  The state of a child has the places where its pieces are held: the sender of the startup
  channel, its content, the references of the creator, of \<open>ChildReady\<close> and of the session to the \<open>ChildLoop\<close>,
  and the event loop and the thread in it. Clones of a session share its reference. Asking an
  event loop to stop does not raise. \<open>ch_stops\<close> counts the requests to stop the
  event loop.
\<close>

section \<open>Child sessions\<close>

datatype child_phase = Spawning | Starting | Binding | Looping | Ended

record child =
  ch_phase :: child_phase
  ch_sender :: bool
  ch_content :: "unit result option"
  ch_creator :: bool
  ch_ready :: bool
  ch_session :: bool
  ch_loop :: bool
  ch_handle :: bool
  ch_stops :: nat

definition child_new :: child where
  "child_new = \<lparr>ch_phase = Spawning, ch_sender = True, ch_content = None, ch_creator = True, ch_ready = False, ch_session = False,
     ch_loop = False, ch_handle = False, ch_stops = 0\<rparr>"

text \<open>Whether a reference to the \<open>ChildLoop\<close> is left, the one in the channel included.\<close>

definition child_held :: "child \<Rightarrow> bool" where
  "child_held s \<longleftrightarrow> ch_creator s \<or> ch_ready s \<or> ch_session s"

definition child_loop_stop :: "child \<Rightarrow> child" where
  "child_loop_stop s = (if ch_loop s then s\<lparr>ch_loop := False, ch_stops := Suc (ch_stops s)\<rparr> else s)"

text \<open>\<open>Drop for ChildLoop\<close>, when the last reference is gone.\<close>

definition child_release :: "child \<Rightarrow> child" where
  "child_release s = (if child_held s then s else (child_loop_stop s)\<lparr>ch_handle := False\<rparr>)"

text \<open>The end of the thread with the outcome of \<open>run_child_loop\<close>.\<close>

definition child_thread_end :: "py_err + unit \<Rightarrow> child \<Rightarrow> child" where
  "child_thread_end r s =
     (case r of
        Inl e \<Rightarrow>
          if ch_sender s
          then s\<lparr>ch_phase := Ended, ch_sender := False,
                 ch_content := (if ch_creator s then Some (Inl (adapter (PyCause (pe_shown e)))) else None)\<rparr>
          else s\<lparr>ch_phase := Ended\<rparr>
      | Inr _ \<Rightarrow> s\<lparr>ch_phase := Ended, ch_sender := False\<rparr>)"

text \<open>
  \<open>run_child_loop\<close> up to the loop: it creates the shell and calls \<open>ChildReady\<close>, which
  takes a reference to the \<open>ChildLoop\<close> and puts the event loop into it. An exception of
  either ends the thread.
\<close>

definition child_ready :: "(error \<Rightarrow> py_err) \<Rightarrow> py_err + unit \<Rightarrow> child \<Rightarrow> child" where
  "child_ready raise shell s =
     (case shell of
        Inl e \<Rightarrow> child_thread_end (Inl e) s
      | Inr _ \<Rightarrow>
          if child_held s then s\<lparr>ch_phase := Binding, ch_ready := True, ch_loop := True\<rparr>
          else child_thread_end (Inl (raise (closed ''child Python session during startup''))) s)"

text \<open>
  The rest of \<open>ChildReady\<close>, while the creator may go away: \<open>bound\<close> is what binding the
  shell gives, and its reference goes into the session, which is sent or, without a creator,
  dropped.
\<close>

definition child_bound :: "py_err + unit \<Rightarrow> child \<Rightarrow> child" where
  "child_bound bound s =
     (case bound of
        Inl e \<Rightarrow> child_thread_end (Inl e) (child_release (s\<lparr>ch_ready := False\<rparr>))
      | Inr _ \<Rightarrow>
          let s' = s\<lparr>ch_phase := Looping, ch_sender := False, ch_ready := False\<rparr> in
          if ch_creator s' then s'\<lparr>ch_content := Some (Inr ())\<rparr>
          else (child_release s')\<lparr>ch_stops := Suc (ch_stops (child_release s'))\<rparr>)"

text \<open>What \<open>create_child\<close> returns for the content of the channel; \<open>None\<close> is a sender dropped.\<close>

definition created_result :: "string \<Rightarrow> unit result option \<Rightarrow> unit result" where
  "created_result t x =
     (case x of
        Some r \<Rightarrow> r
      | None \<Rightarrow> Inl (caused_by (closed ''child Python session during startup'') (OtherCause t)))"

definition child_received :: "child \<Rightarrow> child" where
  "child_received s =
     child_release (s\<lparr>ch_creator := False, ch_content := None, ch_session := (ch_content s = Some (Inr ()))\<rparr>)"

text \<open>\<open>create_child\<close> dropped while it waits, with what is in its channel.\<close>

definition child_cancelled :: "child \<Rightarrow> child" where
  "child_cancelled s = child_release (s\<lparr>ch_creator := False, ch_content := None\<rparr>)"

definition child_dropped :: "child \<Rightarrow> child" where
  "child_dropped s = child_release (s\<lparr>ch_session := False\<rparr>)"

text \<open>\<open>ChildLoop::shutdown\<close>; \<open>clean\<close> says whether the thread ended without a panic.\<close>

definition child_shutdown :: "bool \<Rightarrow> child \<Rightarrow> unit result \<times> child" where
  "child_shutdown clean s =
     (let s' = child_loop_stop s in
      if ch_handle s'
      then (if clean then Inr () else Inl (closed ''child Python session during shutdown''), s'\<lparr>ch_handle := False\<rparr>)
      else (Inr (), s'))"

text \<open>
  The creator spawns the thread, which then runs on its own; the creator stores the handle
  and waits. The loop of a child may end at any time: asked to stop, by the shell or by an
  exception.
\<close>

inductive child_step :: "(error \<Rightarrow> py_err) \<Rightarrow> child \<Rightarrow> child \<Rightarrow> bool" for raise :: "error \<Rightarrow> py_err" where
  spawns: "ch_phase s = Spawning \<Longrightarrow> child_step raise s (s\<lparr>ch_phase := Starting\<rparr>)"
| stores: "ch_phase s \<noteq> Spawning \<Longrightarrow> ch_creator s \<Longrightarrow> \<not> ch_handle s \<Longrightarrow> child_step raise s (s\<lparr>ch_handle := True\<rparr>)"
| starts: "ch_phase s = Starting \<Longrightarrow> child_step raise s (child_ready raise shell s)"
| binds: "ch_phase s = Binding \<Longrightarrow> child_step raise s (child_bound bound s)"
| receives: "ch_creator s \<Longrightarrow> ch_handle s \<Longrightarrow> \<not> ch_sender s \<Longrightarrow> child_step raise s (child_received s)"
| cancels: "ch_creator s \<Longrightarrow> ch_handle s \<Longrightarrow> child_step raise s (child_cancelled s)"
| drops: "ch_session s \<Longrightarrow> child_step raise s (child_dropped s)"
| shuts: "ch_session s \<Longrightarrow> child_step raise s (snd (child_shutdown clean s))"
| loop_ends: "ch_phase s = Looping \<Longrightarrow> child_step raise s (child_thread_end (Inr ()) s)"
| loop_fails: "ch_phase s = Looping \<Longrightarrow> child_step raise s (child_thread_end (Inl e) s)"

definition child_started :: "child \<Rightarrow> bool" where
  "child_started s \<longleftrightarrow> s = child_new"

section \<open>The language\<close>

text \<open>\<open>new_shell\<close> is the shell factory on the thread of a new child, and \<open>stop\<close> the child's shutdown.\<close>

definition py_language :: "crates \<Rightarrow> 'v python \<Rightarrow> (nat \<Rightarrow> py_err + 'v py_shell) \<Rightarrow> (nat \<Rightarrow> nat \<Rightarrow> unit result) \<Rightarrow> 'v py_shell \<Rightarrow>
    language_family" where
  "py_language c py new_shell stop sh =
     \<lparr>parent_session = py_session c py None sh, supports_children = True,
      create_child = (\<lambda>n. case new_shell n of
          Inl e \<Rightarrow> Inl (adapter (PyCause (pe_shown e)))
        | Inr child \<Rightarrow> Inr (py_session c py (Some (stop n)) child))\<rparr>"

section \<open>The end of the kernel process\<close>

datatype signal = SigTerm | SigKill

datatype process_effect = Complain string | Pause nat | KillGroup signal

text \<open>
  The watch over the parent process: what \<open>getppid\<close> gives every 100 milliseconds, and
  whether it ever differs.
\<close>

fun parent_gone :: "int \<Rightarrow> int list \<Rightarrow> bool" where
  "parent_gone parent_pid [] = False"
| "parent_gone parent_pid (p # ps) = (if p \<noteq> parent_pid then True else parent_gone parent_pid ps)"

text \<open>\<open>None\<close> for the kernel is a kernel still running when its parent is gone.\<close>

definition run_kernel_end :: "bool \<Rightarrow> unit result option \<Rightarrow> unit result \<times> process_effect list" where
  "run_kernel_end owns_process_group ended =
     (let r = (case ended of Some r \<Rightarrow> r | None \<Rightarrow> Inr ()) in
      (r, if owns_process_group
          then (case r of Inl e \<Rightarrow> [Complain (''kernel failed: '' @ show_error e)] | Inr _ \<Rightarrow> []) @
            [KillGroup SigTerm, Pause 60, KillGroup SigKill]
          else []))"

definition run_kernel_py :: "(py_class \<Rightarrow> int option \<Rightarrow> string \<Rightarrow> string) \<Rightarrow> bool \<Rightarrow> int \<Rightarrow> int list \<Rightarrow> unit result option \<Rightarrow>
    ((py_err + unit) \<times> process_effect list) option" where
  "run_kernel_py show owns parent_pid ppids ended =
     (if ended = None \<and> \<not> (owns \<and> parent_gone parent_pid ppids) then None
      else case run_kernel_end owns ended of
        (Inl e, fx) \<Rightarrow> Some (Inl (py_error show e), fx)
      | (Inr _, fx) \<Rightarrow> Some (Inr (), fx))"

section \<open>Installing kernelspecs\<close>

text \<open>The functions Python calls. Their argument \<open>user\<close> has no effect and is left out.\<close>

definition spec_extra :: "crates \<Rightarrow> 'v python \<Rightarrow> nat \<Rightarrow> 'v option \<Rightarrow> py_err + json_map" where
  "spec_extra c py n kw =
     (case kw of
        None \<Rightarrow> Inr []
      | Some v \<Rightarrow> (case py_to_json c py n v of Inl e \<Rightarrow> Inl e | Inr (JObj m) \<Rightarrow> Inr m | Inr _ \<Rightarrow> Inr []))"

definition install_kernelspec_py :: "crates \<Rightarrow> 'v python \<Rightarrow> nat \<Rightarrow> spec_host \<Rightarrow> string \<Rightarrow> string list \<Rightarrow> string \<Rightarrow> string \<Rightarrow>
    string option \<Rightarrow> 'v option \<Rightarrow> file_system \<Rightarrow> (py_err + string) \<times> file_system" where
  "install_kernelspec_py c py n h name argv display_name lang prefix kw fs =
     (case spec_extra c py n kw of
        Inl e \<Rightarrow> (Inl e, fs)
      | Inr extra \<Rightarrow>
          (case install_kernelspec h name argv display_name lang extra prefix fs of
             (Inl e, fs') \<Rightarrow> (Inl (py_error (py_show py) e), fs')
           | (Inr dest, fs') \<Rightarrow> (Inr dest, fs')))"

definition install_kernelspec_dir_py :: "'v python \<Rightarrow> nat \<Rightarrow> spec_host \<Rightarrow> string \<Rightarrow> string \<Rightarrow> string option \<Rightarrow> file_system \<Rightarrow>
    ((py_err + string) \<times> file_system) option" where
  "install_kernelspec_dir_py py depth h src name prefix fs =
     (case install_kernelspec_dir depth h src name prefix fs of
        None \<Rightarrow> None
      | Some (Inl e, fs') \<Rightarrow> Some (Inl (py_error (py_show py) e), fs')
      | Some (Inr dest, fs') \<Rightarrow> Some (Inr dest, fs'))"

section \<open>The Python thread worker\<close>

text \<open>
  The state is a Python object. A callback returns an object or raises; both are results of
  the job, so a callback never ends the worker.
\<close>

definition python_job :: "('v \<Rightarrow> py_err + 'v) \<Rightarrow> 'v \<Rightarrow> ((py_err + 'v) \<times> 'v) option" where
  "python_job callback s = Some (callback s, s)"

definition python_worker_start :: "(py_class \<Rightarrow> int option \<Rightarrow> string \<Rightarrow> string) \<Rightarrow> (int option \<times> string) + (py_err + 'v) \<Rightarrow>
    py_err + ('v, py_err + 'v) worker" where
  "python_worker_start show r =
     (case worker_start (case r of Inl (n, t) \<Rightarrow> SpawnFailed n t | Inr f \<Rightarrow> Created (attach f)) of
        Inl e \<Rightarrow> Inl (py_error show e)
      | Inr w \<Rightarrow> Inr w)"

definition python_call :: "('v \<Rightarrow> py_err + 'v) \<Rightarrow> ('v, py_err + 'v) worker \<Rightarrow> nat result \<times> ('v, py_err + 'v) worker" where
  "python_call callback w = worker_send (\<lambda>t. Call t (python_job callback)) w"

definition python_call_result :: "(py_class \<Rightarrow> int option \<Rightarrow> string \<Rightarrow> string) \<Rightarrow> string \<Rightarrow> (py_err + 'v) answer \<Rightarrow> py_err + 'v" where
  "python_call_result show t a = (case call_result t a of Inl e \<Rightarrow> Inl (py_error show e) | Inr r \<Rightarrow> r)"

definition python_shutdown_result :: "(py_class \<Rightarrow> int option \<Rightarrow> string \<Rightarrow> string) \<Rightarrow> string \<Rightarrow> (py_err + 'v) answer \<Rightarrow> py_err + unit" where
  "python_shutdown_result show t a = (case shutdown_answer t a of Inl e \<Rightarrow> Inl (py_error show e) | Inr r \<Rightarrow> Inr r)"

section \<open>Invariant\<close>

definition child_ok :: "child \<Rightarrow> bool" where
  "child_ok s \<longleftrightarrow>
     (ch_phase s \<in> {Spawning, Starting} \<longrightarrow> \<not> ch_loop s) \<and>
     (ch_phase s \<in> {Spawning, Starting, Binding} \<longrightarrow> ch_sender s \<and> \<not> ch_session s \<and> ch_content s = None) \<and>
     (ch_phase s = Spawning \<longrightarrow> ch_creator s \<and> \<not> ch_handle s) \<and>
     (ch_phase s = Binding \<longleftrightarrow> ch_ready s) \<and>
     (ch_phase s \<in> {Looping, Ended} \<longrightarrow> \<not> ch_sender s) \<and>
     (ch_creator s \<longrightarrow> \<not> ch_session s \<and> (ch_phase s \<in> {Looping, Ended} \<longrightarrow> ch_content s \<noteq> None)) \<and>
     (ch_phase s = Binding \<longrightarrow> ch_loop s) \<and>
     (ch_phase s = Looping \<longrightarrow> ch_stops s = 0 \<longrightarrow> child_held s \<and> ch_loop s) \<and>
     (ch_phase s = Looping \<longrightarrow> ch_creator s \<longrightarrow> ch_content s = Some (Inr ())) \<and>
     (ch_phase s \<in> {Spawning, Starting, Binding} \<longrightarrow> ch_stops s = 0) \<and>
     (\<not> child_held s \<longrightarrow> \<not> ch_loop s \<and> \<not> ch_handle s)"

lemmas child_defs = child_ok_def child_held_def child_ready_def child_bound_def child_thread_end_def child_received_def
  child_cancelled_def child_dropped_def child_shutdown_def child_release_def child_loop_stop_def

lemma child_ok_ready: "child_ok s \<Longrightarrow> ch_phase s = Starting \<Longrightarrow> child_ok (child_ready raise shell s)"
  by (cases shell; cases "ch_creator s"; cases "ch_ready s"; simp add: child_defs)

lemma child_ok_bound: "child_ok s \<Longrightarrow> ch_phase s = Binding \<Longrightarrow> child_ok (child_bound bound s)"
  by (cases bound; cases "ch_creator s"; cases "ch_loop s"; simp add: child_defs)

lemma child_ok_ended: "child_ok s \<Longrightarrow> ch_phase s = Looping \<Longrightarrow> child_ok (child_thread_end r s)"
  by (cases r; simp add: child_defs)

lemma child_ok_received:
  "child_ok s \<Longrightarrow> ch_creator s \<Longrightarrow> \<not> ch_sender s \<Longrightarrow> child_ok (child_received s)"
  by (cases "ch_phase s"; cases "ch_loop s"; simp add: child_defs)

lemma child_ok_cancelled:
  "child_ok s \<Longrightarrow> ch_creator s \<Longrightarrow> ch_handle s \<Longrightarrow> child_ok (child_cancelled s)"
  by (cases "ch_phase s"; cases "ch_loop s"; simp add: child_defs)

lemma child_ok_dropped: "child_ok s \<Longrightarrow> ch_session s \<Longrightarrow> child_ok (child_dropped s)"
  by (cases "ch_phase s"; cases "ch_loop s"; cases "ch_creator s"; simp add: child_defs)

lemma child_ok_shutdown: "child_ok s \<Longrightarrow> ch_session s \<Longrightarrow> child_ok (snd (child_shutdown clean s))"
  by (cases "ch_phase s"; cases "ch_loop s"; cases "ch_creator s"; cases "ch_handle s"; simp add: child_defs)

lemma child_ok_spawns: "child_ok s \<Longrightarrow> ch_phase s = Spawning \<Longrightarrow> child_ok (s\<lparr>ch_phase := Starting\<rparr>)"
  by (simp add: child_defs)

lemma child_ok_stores: "child_ok s \<Longrightarrow> ch_creator s \<Longrightarrow> ch_phase s \<noteq> Spawning \<Longrightarrow> child_ok (s\<lparr>ch_handle := True\<rparr>)"
  by (cases "ch_phase s"; simp add: child_defs)

lemmas child_ok_intros = child_ok_ready child_ok_bound child_ok_ended child_ok_received child_ok_cancelled
  child_ok_dropped child_ok_shutdown child_ok_spawns child_ok_stores

lemma child_ok_kept: "child_step raise s s' \<Longrightarrow> child_ok s \<Longrightarrow> child_ok s'"
  by (induction rule: child_step.induct) (auto intro: child_ok_intros)

interpretation cl: inductive_invariant child_started "child_step raise" child_ok for raise
proof
  show "child_ok s" if "child_started s" for s
    using that by (simp add: child_started_def child_new_def child_ok_def child_held_def)
  show "child_ok t" if "child_ok s" "child_step raise s t" for s t
    using that(2,1) by (rule child_ok_kept)
qed

section \<open>Theorems\<close>

lemma parent_gone_iff: "parent_gone p ps \<longleftrightarrow> (\<exists>q \<in> set ps. q \<noteq> p)"
  by (induction ps) auto

text \<open>
  The kernel process leaves nothing behind: when it owns its process group, every end of
  \<open>run_kernel\<close>, its own, a failure or the loss of the parent, signals the group to
  terminate and then kills it.
\<close>

lemma process_group_ended:
  assumes "run_kernel_py show owns parent_pid ppids ended = Some (r, fx)"
  shows "owns \<Longrightarrow> \<exists>out. fx = out @ [KillGroup SigTerm, Pause 60, KillGroup SigKill] \<and> (out = [] \<longleftrightarrow> r = Inr ())"
    and "\<not> owns \<Longrightarrow> fx = [] \<and> ended \<noteq> None"
  using assms by (auto simp: run_kernel_py_def run_kernel_end_def split: if_splits option.splits sum.splits)

text \<open>
  A Python callback that raises does not end the worker: the calls that wait are answered
  one after the other, each with what its callback returns or raises, and the state stays.
\<close>

lemma python_calls_answered:
  "w_state w = Some s \<Longrightarrow> w_jobs w = map (\<lambda>(t, f). Call t (python_job f)) calls \<Longrightarrow>
   (worker_turn ^^ length calls) w =
     w\<lparr>w_jobs := [], w_replies := w_replies w @ map (\<lambda>(t, f). (t, Returned (f s))) calls\<rparr>"
proof (induction calls arbitrary: w)
  case Nil
  then show ?case by (cases w) simp
next
  case (Cons tf calls)
  obtain t f where tf: "tf = (t, f)" by (cases tf)
  have "worker_turn w = w\<lparr>w_jobs := map (\<lambda>(t, f). Call t (python_job f)) calls, w_replies := w_replies w @ [(t, Returned (f s))]\<rparr>"
    using Cons.prems by (simp add: worker_turn_def tf) (simp add: python_job_def)
  then show ?case
    using Cons.IH [of "worker_turn w"] Cons.prems tf by (simp add: funpow_swap1)
qed

text \<open>
  C31. No child session is leaked and no creator waits for nothing. Whatever the order of
  startup, cancellation, shutdown and drop: a creator that still waits has its answer once
  the child's thread is past the startup; an event loop that runs while nobody holds its
  session has been asked to stop; and for one that is held, the shutdown or the drop of the
  session, or dropping the creation that has not taken it, asks it to stop.
\<close>

theorem child_never_leaked:
  assumes "reachable child_started (child_step raise) s"
  shows "(ch_creator s \<and> (ch_phase s = Looping \<or> ch_phase s = Ended) \<longrightarrow> ch_content s \<noteq> None) \<and>
    (ch_phase s = Looping \<and> \<not> ch_creator s \<and> \<not> ch_session s \<longrightarrow> 0 < ch_stops s) \<and>
    (ch_phase s = Looping \<and> ch_session s \<longrightarrow>
       0 < ch_stops (snd (child_shutdown clean s)) \<and> 0 < ch_stops (child_dropped s)) \<and>
    (ch_phase s = Looping \<and> ch_creator s \<longrightarrow> 0 < ch_stops (child_cancelled s))"
proof -
  have ok: "child_ok s" by (rule cl.inv_reachable [OF assms])
  then have "ch_phase s = Looping \<and> ch_session s \<longrightarrow> 0 < ch_stops (snd (child_shutdown clean s)) \<and> 0 < ch_stops (child_dropped s)"
    by (cases "ch_phase s"; cases "ch_loop s"; cases "ch_creator s"; cases "ch_stops s"; simp add: child_defs Let_def)
  moreover from ok have "ch_phase s = Looping \<and> ch_creator s \<longrightarrow> 0 < ch_stops (child_cancelled s)"
    by (cases "ch_phase s"; cases "ch_loop s"; cases "ch_creator s"; cases "ch_stops s"; simp add: child_defs)
  moreover from ok have "ch_creator s \<and> (ch_phase s = Looping \<or> ch_phase s = Ended) \<longrightarrow> ch_content s \<noteq> None"
    by (cases "ch_phase s"; simp add: child_ok_def)
  moreover from ok have "ch_phase s = Looping \<and> \<not> ch_creator s \<and> \<not> ch_session s \<longrightarrow> 0 < ch_stops s"
    by (cases "ch_phase s"; cases "ch_stops s"; simp add: child_ok_def child_held_def)
  ultimately show ?thesis by simp
qed

text \<open>A creation that is dropped while the child binds its shell: the loop starts and is stopped.\<close>

definition demo_raise :: "error \<Rightarrow> py_err" where
  "demo_raise = py_error (\<lambda>_ _ t. t)"

definition demo_child :: child where
  "demo_child = child_bound (Inr ()) (child_cancelled (child_ready demo_raise (Inr ()) (child_new\<lparr>ch_phase := Starting, ch_handle := True\<rparr>)))"

lemma demo_child_reachable: "reachable child_started (child_step demo_raise) demo_child"
proof -
  let ?R = "reachable child_started (child_step demo_raise)"
  have "?R child_new" by (rule reach_start) (simp add: child_started_def)
  then have "?R (child_new\<lparr>ch_phase := Starting\<rparr>)" by (rule reach_step) (rule spawns, simp add: child_new_def)
  then have "?R (child_new\<lparr>ch_phase := Starting, ch_handle := True\<rparr>)"
    by (rule reach_step) (use stores [of "child_new\<lparr>ch_phase := Starting\<rparr>" demo_raise] in \<open>simp add: child_new_def\<close>)
  then have "?R (child_ready demo_raise (Inr ()) (child_new\<lparr>ch_phase := Starting, ch_handle := True\<rparr>))"
    by (rule reach_step) (rule starts, simp)
  then have "?R (child_cancelled (child_ready demo_raise (Inr ()) (child_new\<lparr>ch_phase := Starting, ch_handle := True\<rparr>)))"
    by (rule reach_step) (rule cancels; simp add: child_new_def child_defs)
  then show ?thesis
    unfolding demo_child_def by (rule reach_step) (rule binds, simp add: child_new_def child_defs)
qed

theorem child_never_leaked_witness:
  "ch_phase demo_child = Looping \<and> \<not> ch_creator demo_child \<and> \<not> ch_session demo_child \<and> 0 < ch_stops demo_child"
proof -
  have "ch_phase demo_child = Looping \<and> \<not> ch_creator demo_child \<and> \<not> ch_session demo_child"
    by (simp add: demo_child_def child_new_def child_defs)
  then show ?thesis using child_never_leaked [OF demo_child_reachable, of True] by simp
qed

end
