(* ===== verification/Python_Dap.thy ===== *)
theory Python_Dap
  imports Python_Session Dap Startup
begin

text \<open>
  The debug adapter client as Python sees it (\<open>src/py/src/python_dap.rs\<close>): the
  connection in use, the connections it replaced, and the request objects that Python code
  waits for. A request object holds its connection, its ticket there and its number, until
  it is awaited, and \<open>pd_waiting\<close> has the requests that a thread waits for. What \<open>DapClient\<close> does with a connection is in \<open>Dap\<close>; here it
  runs between any two steps.
\<close>

type_synonym dap_handle = "nat \<times> nat \<times> u64"

record py_dap =
  pd_client :: "nat option"
  pd_conns :: "dap list"
  pd_requests :: "dap_handle option list"
  pd_waiting :: "dap_handle list"

definition py_dap_new :: py_dap where
  "py_dap_new = \<lparr>pd_client = None, pd_conns = [], pd_requests = [], pd_waiting = []\<rparr>"

section \<open>Operations\<close>

definition value_error_new :: "'v python \<Rightarrow> string \<Rightarrow> py_err" where
  "value_error_new py t = \<lparr>pe_class = ValueErrorClass, pe_errno = None, pe_text = t, pe_kind = None, pe_cause = None,
     pe_shown = py_show py ValueErrorClass None t\<rparr>"

text \<open>\<open>Duration::try_from_secs_f64\<close> in nanoseconds, with its two errors.\<close>

definition timeout_duration :: "'v python \<Rightarrow> f64_value \<Rightarrow> py_err + nat" where
  "timeout_duration py seconds =
     (let negative = Inl (value_error_new py (''invalid DAP timeout: cannot convert float seconds to Duration: value is negative''));
          too_big = Inl (value_error_new py (''invalid DAP timeout: cannot convert float seconds to Duration: value is either too big or NaN'')) in
      case seconds of
        Finite q \<Rightarrow> if q < 0 then negative else (case duration_from_secs q of Some t \<Rightarrow> Inr t | None \<Rightarrow> too_big)
      | Infinite sign \<Rightarrow> if sign then negative else too_big
      | NotANumber \<Rightarrow> too_big)"

text \<open>\<open>DapClient::close\<close> on the connection \<open>i\<close>.\<close>

definition close_conn :: "nat \<Rightarrow> dap list \<Rightarrow> dap list" where
  "close_conn i ds = (if i < length ds then ds[i := fail_pending (closed ''DAP client'') (ds ! i)] else ds)"

text \<open>\<open>connect\<close>, with the outcome of the TCP connection. The new client replaces the old one.\<close>

definition py_dap_connect :: "'v python \<Rightarrow> (int option \<times> string) + unit \<Rightarrow> py_dap \<Rightarrow> (py_err + unit) \<times> py_dap" where
  "py_dap_connect py r s =
     (case r of
        Inl (n, t) \<Rightarrow> (Inl (py_error (py_show py) (from_io n t)), s)
      | Inr _ \<Rightarrow>
          (Inr (), s\<lparr>pd_client := Some (length (pd_conns s)),
             pd_conns := (case pd_client s of None \<Rightarrow> pd_conns s | Some i \<Rightarrow> close_conn i (pd_conns s)) @ [dap_connect]\<rparr>))"

text \<open>The task that calls the event callback: what it prints for the events of a connection.\<close>

fun py_dap_events :: "crates \<Rightarrow> 'v python \<Rightarrow> (nat \<Rightarrow> 'v \<Rightarrow> py_err + unit) \<Rightarrow> nat \<Rightarrow> json list \<Rightarrow> string list" where
  "py_dap_events c py callback n [] = []"
| "py_dap_events c py callback n (event # events) =
     (case (case json_to_py c py n event of Inl e \<Rightarrow> Inl e | Inr v \<Rightarrow> callback n v) of
        Inl e \<Rightarrow> [''DAP event callback failed: '' @ pe_shown e]
      | Inr _ \<Rightarrow> []) @ py_dap_events c py callback (Suc n) events"

definition py_dap_close :: "py_dap \<Rightarrow> py_dap" where
  "py_dap_close s =
     (case pd_client s of None \<Rightarrow> s | Some i \<Rightarrow> s\<lparr>pd_client := None, pd_conns := close_conn i (pd_conns s)\<rparr>)"

definition py_dap_client :: "'v python \<Rightarrow> py_dap \<Rightarrow> py_err + nat" where
  "py_dap_client py s =
     (case pd_client s of
        None \<Rightarrow> Inl (py_error (py_show py) (closed ''DAP client (not connected)''))
      | Some i \<Rightarrow> Inr i)"

text \<open>\<open>send\<close> is what \<open>DapClient::send\<close> on a connection returns: the ticket and the number.\<close>

definition send_request_async :: "crates \<Rightarrow> 'v python \<Rightarrow> nat \<Rightarrow> (nat \<Rightarrow> json \<Rightarrow> (nat \<times> u64) result) \<Rightarrow> 'v \<Rightarrow> py_dap \<Rightarrow>
    (py_err + u64 \<times> nat) \<times> py_dap" where
  "send_request_async c py n send v s =
     (case py_dap_client py s of
        Inl e \<Rightarrow> (Inl e, s)
      | Inr i \<Rightarrow>
          (case py_to_json c py n v of
             Inl e \<Rightarrow> (Inl e, s)
           | Inr j \<Rightarrow>
               (case send i j of
                  Inl e \<Rightarrow> (Inl (py_error (py_show py) e), s)
                | Inr (t, seq) \<Rightarrow>
                    (Inr (seq, length (pd_requests s)), s\<lparr>pd_requests := pd_requests s @ [Some (i, t, seq)]\<rparr>))))"

text \<open>
  \<open>PyDapRequest::wait\<close> on the object \<open>k\<close> up to the blocking wait: it takes the
  request and then reads the timeout, whose error drops the request.
\<close>

definition drop_handle :: "dap_handle \<Rightarrow> dap list \<Rightarrow> dap list" where
  "drop_handle h ds = (case h of (i, t, seq) \<Rightarrow> ds[i := dap_cancel t seq (ds ! i)])"

definition request_take :: "'v python \<Rightarrow> nat \<Rightarrow> f64_value \<Rightarrow> py_dap \<Rightarrow> (py_err + dap_handle \<times> nat) \<times> py_dap" where
  "request_take py k timeout s =
     (case pd_requests s ! k of
        None \<Rightarrow> (Inl (value_error_new py ''DAP request was already awaited''), s)
      | Some h \<Rightarrow>
          let s' = s\<lparr>pd_requests := (pd_requests s)[k := None]\<rparr> in
          case timeout_duration py timeout of
            Inl e \<Rightarrow> (Inl e, s'\<lparr>pd_conns := drop_handle h (pd_conns s')\<rparr>)
          | Inr d \<Rightarrow> (Inr (h, d), s'\<lparr>pd_waiting := h # pd_waiting s'\<rparr>))"

text \<open>The end of the wait, which drops the request.\<close>

definition request_finish :: "crates \<Rightarrow> 'v python \<Rightarrow> nat \<Rightarrow> dap_handle \<Rightarrow> wait_end \<Rightarrow> py_dap \<Rightarrow> (py_err + 'v) \<times> py_dap" where
  "request_finish c py n h x s =
     (let s' = s\<lparr>pd_waiting := remove1 h (pd_waiting s), pd_conns := drop_handle h (pd_conns s)\<rparr> in
      case wait_answer (snd (snd h)) x of
        Inl e \<Rightarrow> (Inl (py_error (py_show py) e), s')
      | Inr v \<Rightarrow> (json_to_py c py n v, s'))"

definition wait_for_response :: "'v python \<Rightarrow> u64 \<Rightarrow> nat \<Rightarrow> f64_value \<Rightarrow> py_dap \<Rightarrow> (py_err + dap_handle \<times> nat) \<times> py_dap" where
  "wait_for_response py req_seq k timeout s =
     (if map_option (\<lambda>(_, _, seq). seq) (pd_requests s ! k) \<noteq> Some req_seq
      then (Inl (value_error_new py ''DAP request sequence does not match waiter''), s)
      else request_take py k timeout s)"

text \<open>\<open>ask\<close> is \<open>DapClient::request\<close>: the request is sent and awaited in one call.\<close>

definition send_request :: "crates \<Rightarrow> 'v python \<Rightarrow> nat \<Rightarrow> (nat \<Rightarrow> json \<Rightarrow> nat \<Rightarrow> json result) \<Rightarrow> 'v \<Rightarrow> f64_value \<Rightarrow> py_dap \<Rightarrow> py_err + 'v" where
  "send_request c py n ask v timeout s =
     (case py_to_json c py n v of
        Inl e \<Rightarrow> Inl e
      | Inr j \<Rightarrow>
          (case py_dap_client py s of
             Inl e \<Rightarrow> Inl e
           | Inr i \<Rightarrow>
               (case timeout_duration py timeout of
                  Inl e \<Rightarrow> Inl e
                | Inr d \<Rightarrow>
                    (case ask i j d of
                       Inl e \<Rightarrow> Inl (py_error (py_show py) e)
                     | Inr r \<Rightarrow> json_to_py c py n r))))"

text \<open>
  The interleaving: Python connects, closes, sends and waits, and every connection takes
  its own steps. A send returns a ticket that its connection has issued, with its number, and
  a wait ends with an answer only if its request has it.
\<close>

inductive py_dap_step :: "crates \<Rightarrow> 'v python \<Rightarrow> py_dap \<Rightarrow> py_dap \<Rightarrow> bool" for c :: crates and py :: "'v python" where
  py_connects: "py_dap_connect py r s = (res, s') \<Longrightarrow> py_dap_step c py s s'"
| py_closes: "py_dap_step c py s (py_dap_close s)"
| py_conn: "i < length (pd_conns s) \<Longrightarrow> dap_step c (pd_conns s ! i) d \<Longrightarrow> py_dap_step c py s (s\<lparr>pd_conns := (pd_conns s)[i := d]\<rparr>)"
| py_sends: "(\<And>i j t seq. send i j = Inr (t, seq) \<Longrightarrow> i < length (pd_conns s) \<Longrightarrow>
      t < dap_issued (pd_conns s ! i) \<and> dap_used (pd_conns s ! i) ! t = seq) \<Longrightarrow>
    send_request_async c py n send v s = (res, s') \<Longrightarrow> py_dap_step c py s s'"
| py_takes: "k < length (pd_requests s) \<Longrightarrow> wait_for_response py req_seq k timeout s = (got, s') \<Longrightarrow> py_dap_step c py s s'"
| py_finishes: "(i, t, seq) \<in> set (pd_waiting s) \<Longrightarrow> (\<And>a. x = AnswerSent a \<Longrightarrow> (t, a) \<in> set (dap_answers (pd_conns s ! i))) \<Longrightarrow>
    request_finish c py n (i, t, seq) x s = (out, s') \<Longrightarrow> py_dap_step c py s s'"

definition py_dap_start :: "py_dap \<Rightarrow> bool" where
  "py_dap_start s \<longleftrightarrow> s = py_dap_new"

section \<open>Invariant\<close>

definition handle_ok :: "dap list \<Rightarrow> dap_handle \<Rightarrow> bool" where
  "handle_ok ds h = (case h of (i, t, seq) \<Rightarrow> i < length ds \<and> t < dap_issued (ds ! i) \<and> dap_used (ds ! i) ! t = seq)"

definition conns_ok :: "crates \<Rightarrow> nat option \<Rightarrow> dap list \<Rightarrow> bool" where
  "conns_ok c cl ds \<longleftrightarrow>
     (\<forall>i. cl = Some i \<longrightarrow> i < length ds) \<and>
     (\<forall>i < length ds. reachable dap_start (dap_step c) (ds ! i) \<and> (cl \<noteq> Some i \<longrightarrow> dap_close (ds ! i) \<noteq> None))"

text \<open>The requests that Python still has, in an object or in a wait.\<close>

definition handles :: "py_dap \<Rightarrow> dap_handle set" where
  "handles s = {h. Some h \<in> set (pd_requests s)} \<union> set (pd_waiting s)"

definition py_dap_ok :: "crates \<Rightarrow> py_dap \<Rightarrow> bool" where
  "py_dap_ok c s \<longleftrightarrow> conns_ok c (pd_client s) (pd_conns s) \<and> (\<forall>h \<in> handles s. handle_ok (pd_conns s) h)"

text \<open>What a step of a connection keeps: a close, and the numbers of the requests issued.\<close>

definition dap_grows :: "dap \<Rightarrow> dap \<Rightarrow> bool" where
  "dap_grows d e \<longleftrightarrow> (dap_close d \<noteq> None \<longrightarrow> dap_close e \<noteq> None) \<and> dap_issued d \<le> dap_issued e \<and>
     (\<exists>new. dap_used e = dap_used d @ new)"

lemma dap_grows_fail [simp]: "dap_grows d (fail_pending e d)"
  by (simp add: dap_grows_def fail_pending_def Let_def)

lemma dap_grows_cancel [simp]: "dap_grows d (dap_cancel t q d)"
  by (simp add: dap_grows_def dap_cancel_def drop_request_def Let_def)

lemma request_sequence_keeps:
  "request_sequence v s = (r, s') \<Longrightarrow> dap_close s' = dap_close s \<and> dap_issued s' = dap_issued s \<and> dap_used s' = dap_used s"
  by (auto simp: request_sequence_def next_sequence_def Let_def split: json.splits option.splits if_splits)

lemma dap_grows_register: "dap_register c v d = (r, e) \<Longrightarrow> dap_grows d e"
  by (auto simp: dap_register_def dap_grows_def split: prod.splits sum.splits if_splits dest!: request_sequence_keeps)

lemma dap_grows_step:
  assumes "dap_step c d e"
  shows "dap_grows d e"
  using assms
proof cases
  case (register v r)
  then show ?thesis by (auto intro: dap_grows_register)
next
  case (recheck x r)
  then show ?thesis by (auto simp: dap_grows_def dap_recheck_def drop_request_def Let_def split: prod.splits option.splits)
next
  case (hand x taken r)
  then show ?thesis by (auto simp: dap_grows_def dap_hand_def drop_request_def Let_def split: prod.splits if_splits)
next
  case (received v)
  then show ?thesis by (auto simp: dap_grows_def receive_message_def Let_def split: option.splits)
next
  case (written w)
  then show ?thesis by (auto simp: dap_grows_def write_frame_def fail_pending_def Let_def split: list.splits sum.splits)
qed simp_all

lemma dap_ok_length: "reachable dap_start (dap_step c) d \<Longrightarrow> length (dap_used d) = dap_issued d"
  using da.inv_reachable [of c d] by (simp add: dap_ok_def)

lemma handle_ok_update:
  assumes "conns_ok c cl ds" and "dap_grows (ds ! i) d" and "handle_ok ds h"
  shows "handle_ok (ds[i := d]) h"
proof -
  obtain j t seq where h: "h = (j, t, seq)" by (cases h)
  from assms(1,3) have "length (dap_used (ds ! j)) = dap_issued (ds ! j)"
    by (auto simp: conns_ok_def handle_ok_def h intro: dap_ok_length)
  with assms(2,3) show ?thesis
    by (cases "i = j") (auto simp: handle_ok_def h dap_grows_def nth_append)
qed

lemma conns_ok_update:
  assumes "conns_ok c cl ds" and "i < length ds" and "dap_step c (ds ! i) d"
  shows "conns_ok c cl (ds[i := d])"
  using assms dap_grows_step [OF assms(3)]
  by (auto simp: conns_ok_def nth_list_update dap_grows_def intro: reach_step)

lemma conns_ok_close:
  assumes "conns_ok c (Some i) ds"
  shows "conns_ok c None (close_conn i ds)"
  using assms by (auto simp: conns_ok_def close_conn_def nth_list_update fail_pending_def Let_def intro: reach_failed [unfolded fail_pending_def Let_def])

lemma conns_ok_new: "conns_ok c None ds \<Longrightarrow> conns_ok c (Some (length ds)) (ds @ [dap_connect])"
  by (auto simp: conns_ok_def nth_append less_Suc_eq dap_start_def intro: reach_start)

lemma conns_ok_drop:
  assumes "conns_ok c cl ds" and "handle_ok ds h"
  shows "conns_ok c cl (drop_handle h ds)"
  using assms by (cases h) (auto simp: drop_handle_def handle_ok_def intro!: conns_ok_update dap_step.cancel)

lemma handle_ok_drop: "conns_ok c cl ds \<Longrightarrow> handle_ok ds h \<Longrightarrow> handle_ok (drop_handle h' ds) h"
  by (cases h') (auto simp: drop_handle_def intro: handle_ok_update)

lemma handle_ok_close: "conns_ok c cl ds \<Longrightarrow> handle_ok ds h \<Longrightarrow> handle_ok (close_conn i ds) h"
  by (auto simp: close_conn_def intro: handle_ok_update)

lemma handle_ok_append: "handle_ok ds h \<Longrightarrow> handle_ok (ds @ ds') h"
  by (auto simp: handle_ok_def nth_append)

lemma py_dap_ok_shrinks:
  assumes "py_dap_ok c s" and "conns_ok c (pd_client s') (pd_conns s')" and "handles s' \<subseteq> handles s"
    and "\<And>h. handle_ok (pd_conns s) h \<Longrightarrow> handle_ok (pd_conns s') h"
  shows "py_dap_ok c s'"
  using assms unfolding py_dap_ok_def by blast

lemma handles_take: "handles (s\<lparr>pd_requests := (pd_requests s)[k := None]\<rparr>) \<subseteq> handles s"
  using set_update_subset_insert [of "pd_requests s" k None] by (auto simp: handles_def)

lemma handles_simps [simp]:
  "handles (s\<lparr>pd_client := x\<rparr>) = handles s" "handles (s\<lparr>pd_conns := ds\<rparr>) = handles s"
  "handles (s\<lparr>pd_waiting := h # pd_waiting s\<rparr>) = insert h (handles s)"
  by (auto simp: handles_def)

lemma py_dap_ok_connect:
  assumes ok: "py_dap_ok c s" and step: "py_dap_connect py r s = (res, s')"
  shows "py_dap_ok c s'"
proof (cases r)
  case (Inl x)
  with assms show ?thesis by (cases x) (simp add: py_dap_connect_def)
next
  case (Inr u)
  let ?ds = "case pd_client s of None \<Rightarrow> pd_conns s | Some i \<Rightarrow> close_conn i (pd_conns s)"
  have s': "s' = s\<lparr>pd_client := Some (length ?ds), pd_conns := ?ds @ [dap_connect]\<rparr>"
    using step Inr by (auto simp: py_dap_connect_def close_conn_def split: option.splits)
  have conns: "conns_ok c (pd_client s) (pd_conns s)" using ok by (simp add: py_dap_ok_def)
  then have "conns_ok c None ?ds" by (auto intro: conns_ok_close split: option.split)
  moreover have "handle_ok ?ds h" if "handle_ok (pd_conns s) h" for h
    using that conns by (auto intro: handle_ok_close split: option.split)
  ultimately show ?thesis
    using ok unfolding s' by (intro py_dap_ok_shrinks [OF ok]) (simp_all add: conns_ok_new handle_ok_append del: length_append)
qed

lemma py_dap_ok_close:
  assumes ok: "py_dap_ok c s"
  shows "py_dap_ok c (py_dap_close s)"
proof -
  have "conns_ok c (pd_client s) (pd_conns s)" using ok by (simp add: py_dap_ok_def)
  then show ?thesis
    using ok by (cases "pd_client s")
      (auto simp: py_dap_close_def intro!: py_dap_ok_shrinks [OF ok] conns_ok_close intro: handle_ok_close)
qed

lemma py_dap_ok_dropped:
  assumes ok: "py_dap_ok c s" and "h \<in> handles s" and "handles s' \<subseteq> handles s"
    and "pd_client s' = pd_client s" and "pd_conns s' = drop_handle h (pd_conns s)"
  shows "py_dap_ok c s'"
proof (rule py_dap_ok_shrinks [OF ok _ assms(3)])
  have "conns_ok c (pd_client s) (pd_conns s)" "handle_ok (pd_conns s) h" using ok assms(2) by (simp_all add: py_dap_ok_def)
  then show "conns_ok c (pd_client s') (pd_conns s')" "\<And>g. handle_ok (pd_conns s) g \<Longrightarrow> handle_ok (pd_conns s') g"
    unfolding assms(4,5) by (auto intro: conns_ok_drop handle_ok_drop)
qed

lemma py_dap_ok_take:
  assumes ok: "py_dap_ok c s" and k: "k < length (pd_requests s)" and step: "wait_for_response py q k timeout s = (got, s')"
  shows "py_dap_ok c s'"
proof (cases "pd_requests s ! k")
  case None
  with ok step show ?thesis by (simp add: wait_for_response_def split: if_splits)
next
  case (Some h)
  let ?t = "s\<lparr>pd_requests := (pd_requests s)[k := None]\<rparr>"
  have h: "h \<in> handles s" using Some k nth_mem [OF k] by (simp add: handles_def)
  have "s' = s \<or> s' = ?t\<lparr>pd_conns := drop_handle h (pd_conns s)\<rparr> \<or> s' = ?t\<lparr>pd_waiting := h # pd_waiting ?t\<rparr>"
    using step Some by (auto simp: wait_for_response_def request_take_def Let_def split: if_splits sum.splits)
  then show ?thesis
  proof (elim disjE)
    assume s': "s' = ?t\<lparr>pd_conns := drop_handle h (pd_conns s)\<rparr>"
    show ?thesis by (rule py_dap_ok_dropped [OF ok h]) (use handles_take [of s k] in \<open>simp_all add: s'\<close>)
  next
    assume s': "s' = ?t\<lparr>pd_waiting := h # pd_waiting ?t\<rparr>"
    have "handles s' \<subseteq> handles s" using handles_take [of s k] h unfolding s' by (simp only: handles_simps insert_subset)
    with ok show ?thesis by (intro py_dap_ok_shrinks [OF ok]) (simp_all add: s' py_dap_ok_def)
  qed (simp add: ok)
qed

lemma py_dap_ok_finish:
  assumes ok: "py_dap_ok c s" and h: "h \<in> set (pd_waiting s)" and "request_finish c py n h x s = (out, s')"
  shows "py_dap_ok c s'"
proof -
  have s': "s' = s\<lparr>pd_waiting := remove1 h (pd_waiting s), pd_conns := drop_handle h (pd_conns s)\<rparr>"
    using assms(3) by (simp add: request_finish_def Let_def split: sum.splits)
  show ?thesis
    by (rule py_dap_ok_dropped [OF ok, of h])
      (use h set_remove1_subset [of h "pd_waiting s"] in \<open>auto simp: s' handles_def\<close>)
qed

lemma py_dap_ok_sent:
  assumes ok: "py_dap_ok c s" and step: "send_request_async c py n send v s = (res, s')"
    and sent: "\<And>i j t seq. send i j = Inr (t, seq) \<Longrightarrow> i < length (pd_conns s) \<Longrightarrow>
      t < dap_issued (pd_conns s ! i) \<and> dap_used (pd_conns s ! i) ! t = seq"
  shows "py_dap_ok c s'"
proof -
  consider "s' = s" | i j t seq where "pd_client s = Some i" "send i j = Inr (t, seq)"
      "s' = s\<lparr>pd_requests := pd_requests s @ [Some (i, t, seq)]\<rparr>"
    using step by (fastforce simp: send_request_async_def py_dap_client_def split: option.splits sum.splits)
  then show ?thesis
  proof cases
    case (2 i j t seq)
    have i: "i < length (pd_conns s)" using ok 2(1) by (auto simp: py_dap_ok_def conns_ok_def)
    have "handles s' = insert (i, t, seq) (handles s)" unfolding 2(3) by (auto simp: handles_def)
    with ok sent [OF 2(2) i] i 2(3) show ?thesis by (simp add: py_dap_ok_def handle_ok_def)
  qed (simp add: ok)
qed

lemma py_dap_ok_conn:
  assumes ok: "py_dap_ok c s" and i: "i < length (pd_conns s)" and step: "dap_step c (pd_conns s ! i) d"
  shows "py_dap_ok c (s\<lparr>pd_conns := (pd_conns s)[i := d]\<rparr>)"
proof -
  have "conns_ok c (pd_client s) (pd_conns s)" using ok by (simp add: py_dap_ok_def)
  then show ?thesis
    using i step by (intro py_dap_ok_shrinks [OF ok]) (auto intro: conns_ok_update handle_ok_update dap_grows_step)
qed

lemma py_dap_ok_kept:
  assumes "py_dap_step c py s s'" and "py_dap_ok c s"
  shows "py_dap_ok c s'"
  using assms
proof cases
  case (py_sends send n v res)
  show ?thesis by (rule py_dap_ok_sent [OF assms(2) py_sends(2) py_sends(1)])
next
  case (py_finishes i t seq x n out)
  then show ?thesis using assms(2) by (blast intro: py_dap_ok_finish)
qed (auto intro: py_dap_ok_connect py_dap_ok_close py_dap_ok_conn py_dap_ok_take)

interpretation pd: inductive_invariant py_dap_start "py_dap_step c py" "py_dap_ok c" for c py
proof
  show "py_dap_ok c s" if "py_dap_start s" for s
    using that by (simp add: py_dap_start_def py_dap_new_def py_dap_ok_def conns_ok_def handles_def)
  show "py_dap_ok c t" if "py_dap_ok c s" "py_dap_step c py s t" for s t
    using that(2,1) by (rule py_dap_ok_kept)
qed

section \<open>Theorems\<close>

lemma response_number:
  assumes "conns_ok c cl ds" and "handle_ok ds (i, t, seq)" and "(t, Inr v) \<in> set (dap_answers (ds ! i))"
  shows "request_seq v = Some seq"
proof -
  from assms(1,2) have "dap_ok (ds ! i)" by (auto simp: conns_ok_def handle_ok_def intro: da.inv_reachable)
  then have "tickets_ok (dap_used (ds ! i)) (dap_pending (ds ! i)) (dap_answers (ds ! i)) (dap_dropped (ds ! i))"
    by (simp add: dap_ok_def)
  from tickets_answered(2) [OF this] assms(2,3) show ?thesis by (auto simp: handle_ok_def)
qed

lemma closed_settled:
  assumes "reachable dap_start (dap_step c) d" and "dap_close d \<noteq> None" and "t < dap_issued d"
  shows "t \<in> fst ` set (dap_answers d) \<union> set (dap_dropped d) \<union> fst ` set (dap_sending d)"
proof -
  have "dap_ok d" by (rule da.inv_reachable [OF assms(1)])
  then have "tickets_ok (dap_used d) (dap_pending d) (dap_answers d) (dap_dropped d)"
    "length (dap_used d) = dap_issued d" "snd ` set (dap_pending d) \<subseteq> fst ` set (dap_sending d)"
    using assms(2) by (simp_all add: dap_ok_def waiting_def)
  with tickets_cover [of "dap_used d" "dap_pending d" "dap_answers d" "dap_dropped d" t] assms(3) show ?thesis by auto
qed

text \<open>
  C32. Python's debug client keeps at most one connection open and hands every response to
  its request. In every state, each connection but the one in use is closed and every
  request ever issued on it is settled, up to sends that have not yet looked at the close;
  and a wait that gets a response gives Python the response with the number that
  \<open>send_request_async\<close> returned for it.
\<close>

theorem python_debug_client:
  assumes "reachable py_dap_start (py_dap_step c py) s"
  shows "(\<forall>i < length (pd_conns s). pd_client s \<noteq> Some i \<longrightarrow> dap_close (pd_conns s ! i) \<noteq> None \<and>
      (\<forall>t < dap_issued (pd_conns s ! i). t \<in> fst ` set (dap_answers (pd_conns s ! i)) \<union>
         set (dap_dropped (pd_conns s ! i)) \<union> fst ` set (dap_sending (pd_conns s ! i)))) \<and>
    (\<forall>i t seq v n. (i, t, seq) \<in> set (pd_waiting s) \<longrightarrow> (t, Inr v) \<in> set (dap_answers (pd_conns s ! i)) \<longrightarrow>
      request_seq v = Some seq \<and> fst (request_finish c py n (i, t, seq) (AnswerSent (Inr v)) s) = json_to_py c py n v)"
proof -
  have ok: "conns_ok c (pd_client s) (pd_conns s)" "\<forall>h \<in> handles s. handle_ok (pd_conns s) h"
    using pd.inv_reachable [OF assms] by (simp_all add: py_dap_ok_def)
  have "dap_close (pd_conns s ! i) \<noteq> None \<and> (\<forall>t < dap_issued (pd_conns s ! i). t \<in> fst ` set (dap_answers (pd_conns s ! i)) \<union>
      set (dap_dropped (pd_conns s ! i)) \<union> fst ` set (dap_sending (pd_conns s ! i)))"
    if "i < length (pd_conns s)" "pd_client s \<noteq> Some i" for i
    using ok(1) that unfolding conns_ok_def by (metis closed_settled)
  moreover have "request_seq v = Some seq"
    if "(i, t, seq) \<in> set (pd_waiting s)" "(t, Inr v) \<in> set (dap_answers (pd_conns s ! i))" for i t seq v
    using response_number [OF ok(1) _ that(2)] ok(2) that(1) by (simp add: handles_def)
  ultimately show ?thesis by (simp add: request_finish_def wait_answer_def Let_def)
qed

definition demo_answered :: py_dap where
  "demo_answered = \<lparr>pd_client = Some 0, pd_conns = [demo_dap_answered], pd_requests = [Some (0, 0, 1)], pd_waiting = []\<rparr>"

text \<open>
  An invalid timeout loses the response. A wait takes the request out of its object
  before it looks at the timeout, so a negative timeout raises and drops the request, and
  the next wait, with a valid timeout, is refused although the response has arrived.
\<close>

theorem invalid_timeout_loses_response:
  "dap_answers (pd_conns demo_answered ! 0) = [(0, Inr demo_dap_response)] \<and>
   fst (wait_for_response demo_python 1 0 (Finite 10) demo_answered) = Inr ((0, 0, 1), 10 ^ 10) \<and>
   (\<exists>e s'. request_take demo_python 0 (Finite (- 1)) demo_answered = (Inl e, s') \<and> pe_class e = ValueErrorClass \<and>
      dap_dropped (pd_conns s' ! 0) = [0] \<and>
      (\<exists>e'. request_take demo_python 0 (Finite 10) s' = (Inl e', s') \<and> pe_text e' = ''DAP request was already awaited''))"
proof (intro conjI)
  show "dap_answers (pd_conns demo_answered ! 0) = [(0, Inr demo_dap_response)]" by code_simp
  show "fst (wait_for_response demo_python 1 0 (Finite 10) demo_answered) = Inr ((0, 0, 1), 10 ^ 10)"
    by (simp add: wait_for_response_def request_take_def demo_answered_def timeout_duration_def duration_from_secs_def
        half_even_def Let_def)
  show "\<exists>e s'. request_take demo_python 0 (Finite (- 1)) demo_answered = (Inl e, s') \<and> pe_class e = ValueErrorClass \<and>
      dap_dropped (pd_conns s' ! 0) = [0] \<and>
      (\<exists>e'. request_take demo_python 0 (Finite 10) s' = (Inl e', s') \<and> pe_text e' = ''DAP request was already awaited'')"
    by (simp add: request_take_def demo_answered_def timeout_duration_def value_error_new_def drop_handle_def
        dap_cancel_def drop_request_def demo_dap_answered_def Let_def) code_simp
qed

text \<open>A client that sends a request, has its response, waits for it, and meanwhile connects again.\<close>

definition demo_send :: "nat \<Rightarrow> json \<Rightarrow> (nat \<times> u64) result" where
  "demo_send i j = (if i = 0 then Inr (0, 1) else Inl from_send)"

definition demo_waiting :: py_dap where
  "demo_waiting = snd (wait_for_response demo_python 1 0 (Finite 10) demo_answered)"

definition demo_reconnected :: py_dap where
  "demo_reconnected = snd (py_dap_connect demo_python (Inr ()) demo_waiting)"

lemma demo_reconnected_reachable: "reachable py_dap_start (py_dap_step demo_crates demo_python) demo_reconnected"
proof -
  have issued: "dap_issued demo_dap_answered = 1" "dap_used demo_dap_answered ! 0 = 1" by code_simp+
  let ?R = "reachable py_dap_start (py_dap_step demo_crates demo_python)"
  let ?open = "snd (py_dap_connect demo_python (Inr ()) py_dap_new)"
  let ?registered = "?open\<lparr>pd_conns := (pd_conns ?open)[0 := snd (dap_register demo_crates demo_dap_request dap_connect)]\<rparr>"
  let ?answered = "?registered\<lparr>pd_conns := (pd_conns ?registered)[0 := demo_dap_answered]\<rparr>"
  have "?R py_dap_new" by (rule reach_start) (simp add: py_dap_start_def)
  then have "?R ?open" by (rule reach_step) (rule py_connects, rule prod.collapse [symmetric])
  then have "?R ?registered"
    by (rule reach_step)
      (rule py_conn, simp add: py_dap_connect_def py_dap_new_def, rule dap_step.register [of _ demo_dap_request],
        simp add: py_dap_connect_def py_dap_new_def, rule prod.collapse [symmetric])
  then have "?R ?answered"
    by (rule reach_step)
      (rule py_conn, simp add: py_dap_connect_def py_dap_new_def, unfold demo_dap_answered_def,
        rule dap_step.received [of _ "snd (dap_register demo_crates demo_dap_request dap_connect)" demo_dap_response, THEN back_subst [of "\<lambda>d. dap_step demo_crates d _"]],
        simp add: py_dap_connect_def py_dap_new_def)
  then have "?R (snd (send_request_async demo_crates demo_python 0 demo_send JNull ?answered))"
    by (rule reach_step)
      (rule py_sends [where send = demo_send, OF _ prod.collapse [symmetric]],
        use issued in \<open>simp add: demo_send_def py_dap_connect_def py_dap_new_def split: if_splits\<close>)
  also have "snd (send_request_async demo_crates demo_python 0 demo_send JNull ?answered) = demo_answered" by code_simp
  finally have "?R demo_waiting" 
    unfolding demo_waiting_def by (rule reach_step) (rule py_takes [of 0], simp add: demo_answered_def, rule prod.collapse [symmetric])
  then show ?thesis
    unfolding demo_reconnected_def by (rule reach_step) (rule py_connects, rule prod.collapse [symmetric])
qed

theorem python_debug_client_witness:
  "pd_client demo_reconnected = Some 1 \<and> dap_close (pd_conns demo_reconnected ! 0) \<noteq> None \<and>
   (0, 0, 1) \<in> set (pd_waiting demo_reconnected) \<and> request_seq demo_dap_response = Some 1"
proof -
  have waiting: "demo_waiting = demo_answered\<lparr>pd_requests := [None], pd_waiting := [(0, 0, 1)]\<rparr>"
    by (simp add: demo_waiting_def wait_for_response_def request_take_def demo_answered_def timeout_duration_def
        duration_from_secs_def Let_def)
  have "pd_client demo_reconnected = Some 1" "pd_waiting demo_reconnected = [(0, 0, 1)]"
    "0 < length (pd_conns demo_reconnected)"
    "dap_answers (pd_conns demo_reconnected ! 0) = dap_answers (fail_pending (closed ''DAP client'') demo_dap_answered)"
    by (simp_all add: demo_reconnected_def waiting py_dap_connect_def demo_answered_def close_conn_def)
  moreover have "(0, Inr demo_dap_response) \<in> set (dap_answers (fail_pending (closed ''DAP client'') demo_dap_answered))"
    by code_simp
  ultimately show ?thesis using python_debug_client [OF demo_reconnected_reachable] by auto
qed

end
