(* ===== verification/Echo.thy ===== *)
theory Echo
  imports Requests Startup
begin

text \<open>
  Starting a kernel (\<open>KernelInterrupter\<close>, \<open>run_kernel\<close> and
  \<open>run_kernel_blocking\<close> in \<open>src/src/engine.rs\<close>), and the echo kernel
  (\<open>src/src/bin/kernmini-echo.rs\<close>) as a session of the engine. Upper case of Unicode
  text is a parameter.
\<close>

section \<open>Interrupts of the whole kernel\<close>

text \<open>\<open>Notify\<close> stores at most one permit; \<open>None\<close> is a wait that goes on.\<close>

record kernel_interrupter =
  permit :: bool

definition default_interrupter :: kernel_interrupter where
  "default_interrupter = \<lparr>permit = False\<rparr>"

definition kernel_interrupt :: "kernel_interrupter \<Rightarrow> kernel_interrupter" where
  "kernel_interrupt i = i\<lparr>permit := True\<rparr>"

definition kernel_notified :: "kernel_interrupter \<Rightarrow> kernel_interrupter option" where
  "kernel_notified i = (if permit i then Some (i\<lparr>permit := False\<rparr>) else None)"

text \<open>
  The task of \<open>run_kernel\<close> that turns signals into interrupts, up to the first error,
  which ends it; the flag says whether it still runs.
\<close>

fun interrupt_on_signals :: "bool list \<Rightarrow> bool \<times> kernel_interrupter \<Rightarrow> bool \<times> kernel_interrupter" where
  "interrupt_on_signals [] s = s"
| "interrupt_on_signals (received # rest) (alive, i) =
     (if \<not> alive then (alive, i)
      else if received then interrupt_on_signals rest (alive, kernel_interrupt i)
      else (False, i))"

text \<open>
  What the kernel's loop sees when it looks, with the signals that came before each look.
  The signals after the last look meet an aborted task.
\<close>

fun kernel_looks :: "bool list list \<Rightarrow> bool \<times> kernel_interrupter \<Rightarrow> bool list" where
  "kernel_looks [] s = []"
| "kernel_looks (signals # rest) s =
     (case interrupt_on_signals signals s of
        (alive, i) \<Rightarrow>
          (case kernel_notified i of
             None \<Rightarrow> False # kernel_looks rest (alive, i)
           | Some i' \<Rightarrow> True # kernel_looks rest (alive, i')))"

definition run_kernel :: "bool list list \<Rightarrow> (bool list \<Rightarrow> 'l \<Rightarrow> unit result) \<Rightarrow> 'l \<Rightarrow> unit result" where
  "run_kernel signals with_interrupter l = with_interrupter (kernel_looks signals (True, default_interrupter)) l"

definition run_kernel_blocking :: "(int option \<times> string) + unit \<Rightarrow> bool list list \<Rightarrow> (bool list \<Rightarrow> 'l \<Rightarrow> unit result) \<Rightarrow> 'l result \<Rightarrow>
    unit result" where
  "run_kernel_blocking runtime signals with_interrupter l =
     (case runtime of
        Inl (n, t) \<Rightarrow> Inl (from_io n t)
      | Inr _ \<Rightarrow> (case l of Inl e \<Rightarrow> Inl e | Inr x \<Rightarrow> run_kernel signals with_interrupter x))"

text \<open>The kernel sees an interrupt exactly when a signal came since it last looked, however many.\<close>

lemma interrupts_stored:
  "False \<notin> set rs \<Longrightarrow> interrupt_on_signals rs (True, i) = (True, if rs = [] then i else kernel_interrupt i)"
  by (induction rs arbitrary: i) (auto simp: kernel_interrupt_def)

lemma signals_coalesce:
  "\<forall>rs \<in> set signals. False \<notin> set rs \<Longrightarrow>
   kernel_looks signals (True, default_interrupter) = map (\<lambda>rs. rs \<noteq> []) signals"
  by (induction signals) (auto simp: interrupts_stored kernel_notified_def kernel_interrupt_def default_interrupter_def)

section \<open>The echo kernel\<close>

definition echo_kernel_info :: kernel_info where
  "echo_kernel_info = \<lparr>implementation = ''echokernel'', implementation_version = ''0.0.1'', banner = ''echo'',
     language_info = JObj [(''name'', JStr ''echo''), (''version'', JStr ''1.0''), (''mimetype'', JStr ''text/plain''),
       (''file_extension'', JStr ''.txt'')]\<rparr>"

definition parse_float_error :: "string \<Rightarrow> string" where
  "parse_float_error s = (if s = [] then ''cannot parse float from empty string'' else ''invalid float literal'')"

text \<open>Whether \<open>Duration::from_secs_f64\<close> returns; otherwise it panics.\<close>

definition can_sleep :: "f64_value \<Rightarrow> bool" where
  "can_sleep seconds = (case seconds of Finite q \<Rightarrow> 0 \<le> q \<and> duration_from_secs q \<noteq> None | _ \<Rightarrow> False)"

definition echo_outcome :: "(string \<Rightarrow> string) \<Rightarrow> string \<Rightarrow> execute_outcome" where
  "echo_outcome to_uppercase code =
     (let err = (if code = ''boom'' then Some \<lparr>ename = ''EchoError'', evalue = code, traceback = []\<rparr> else None) in
      default_outcome\<lparr>out_result := (if err = None then Some (JObj [(''text/plain'', JStr (to_uppercase code))]) else None),
        out_error := err\<rparr>)"

text \<open>\<open>None\<close> is a panic; \<open>listening\<close> says whether the output pump receives the event.\<close>

definition echo_execute :: "(string \<Rightarrow> string) \<Rightarrow> bool \<Rightarrow> execute_request \<Rightarrow> (context_message list list \<times> execute_outcome result) option" where
  "echo_execute to_uppercase listening ex =
     (let code = er_code ex; out = [[Event (Stream ''stdout'' (''echo: '' @ code @ [CHR 0x0A]))]] in
      if code = ''adapter-error'' then Some ([], Inl (adapter (OtherCause ''echo adapter failed'')))
      else if \<not> listening then Some ([], Inl from_send)
      else case strip_prefix ''sleep:'' code of
        None \<Rightarrow> Some (out, Inr (echo_outcome to_uppercase code))
      | Some seconds \<Rightarrow>
          (case parse_f64 seconds of
             None \<Rightarrow> Some (out, Inl (caused_by (error_new InvalidInput ''invalid sleep duration'') (OtherCause (parse_float_error seconds))))
           | Some t \<Rightarrow> if can_sleep t then Some (out, Inr (echo_outcome to_uppercase code)) else None))"

definition echo_main :: "string list \<Rightarrow> (string \<Rightarrow> unit result) \<Rightarrow> unit result" where
  "echo_main args run =
     (case args of
        _ # connection_file # _ \<Rightarrow> run connection_file
      | _ \<Rightarrow> Inl (error_new InvalidInput ''usage: kernmini-echo CONNECTION_FILE''))"

section \<open>Theorems\<close>

text \<open>
  C35. An echo cell from request to reply. When the language runs a cell as the echo kernel
  does and the cell is plain text, the engine sends, in this order and nothing else: busy,
  the input, the echoed line on stdout, the upper-case result, the reply with status ok, and
  idle.
\<close>

theorem echo_cell:
  assumes "encodes (svc_shared svc)" and "msg_type (message ib) = ''execute_request''"
    and "\<forall>n ctx. echo_execute up True ex = Some (lang_execute (svc_language svc) n ex ctx)" and "\<not> er_silent ex"
    and "strip_prefix ''sleep:'' (er_code ex) = None" and "er_code ex \<noteq> ''adapter-error''" and "er_code ex \<noteq> ''boom''"
  shows "runs (run_execution svc ib ex k) w
    [busy (message ib),
     Pub (notice ''execute_input'' (input_content (er_code ex) k) (message ib)),
     Pub (notice ''stream'' (JObj [(''name'', JStr ''stdout''), (''text'', JStr (''echo: '' @ er_code ex @ [CHR 0x0A]))]) (message ib)),
     Pub (notice ''execute_result'' (JObj [(''execution_count'', jnat k), (''data'', JObj [(''text/plain'', JStr (up (er_code ex)))]),
       (''metadata'', JObj [])]) (message ib)),
     Rep (reply ib) (notice ''execute_reply'' (JObj [(''status'', JStr ''ok''), (''execution_count'', jnat k),
       (''user_expressions'', JObj []), (''payload'', JArr [])]) (message ib)),
     idle (message ib)]
    (Inr \<lparr>failed = False, stop_on_error = bool_field (content (message ib)) ''stop_on_error'' True\<rparr>) (world.more w)"
proof -
  from run_execution_runs [OF assms(1) refl assms(2), of ex k w] obtain n batches outcome where
    lang: "lang_execute (svc_language svc) n ex (output_context (svc_shared svc) (message ib) (Some (identity ib)) k) =
      (batches, outcome)"
    and run: "runs (run_execution svc ib ex k) w
      (busy (message ib) # execute_events (message ib) ex k batches outcome @ run_error_events (message ib) k outcome @
       [Rep (reply ib) (notice ''execute_reply'' (run_reply (message ib) k outcome) (message ib)), idle (message ib)])
      (run_result (message ib) outcome) (world.more w)"
    by blast
  have "Some (batches, outcome) = echo_execute up True ex" using assms(3) lang by metis
  then have b: "batches = [[Event (Stream ''stdout'' (''echo: '' @ er_code ex @ [CHR 0x0A]))]]"
    and r: "outcome = Inr (echo_outcome up (er_code ex))"
    using assms(5-7) by (simp_all add: echo_execute_def Let_def)
  show ?thesis
    using run assms(4,7) unfolding b r
    by (simp add: execute_events_def input_events_def outcome_events_def run_error_events_def run_reply_def outcome_reply_def
        run_result_def echo_outcome_def default_outcome_def Let_def batch_events_def)
qed

text \<open>A shell whose language is the echo kernel, and a cell for it.\<close>

definition demo_echo_services :: shell_services where
  "demo_echo_services = \<lparr>svc_language = default_session (\<lambda>_. Inr echo_kernel_info)
       (\<lambda>_ ex _. case echo_execute (map (\<lambda>_. CHR ''X'')) True ex of Some x \<Rightarrow> x | None \<Rightarrow> ([], Inr default_outcome)),
     svc_shared = demo_services\<rparr>"

definition demo_cell :: inbound where
  "demo_cell = demo_request ''execute_request'' (JObj [(''code'', JStr ''hi'')]) [] 5"

theorem echo_cell_witness:
  "\<exists>r. runs (run_execution demo_echo_services demo_cell (to_execute_request (JObj [(''code'', JStr ''hi'')])) 1) demo_world
    [busy (message demo_cell),
     Pub (notice ''execute_input'' (input_content ''hi'' 1) (message demo_cell)),
     Pub (notice ''stream'' (JObj [(''name'', JStr ''stdout''), (''text'', JStr (''echo: hi'' @ [CHR 0x0A]))]) (message demo_cell)),
     Pub (notice ''execute_result'' (JObj [(''execution_count'', jnat 1), (''data'', JObj [(''text/plain'', JStr ''XX'')]),
       (''metadata'', JObj [])]) (message demo_cell)),
     Rep 5 (notice ''execute_reply'' (JObj [(''status'', JStr ''ok''), (''execution_count'', jnat 1),
       (''user_expressions'', JObj []), (''payload'', JArr [])]) (message demo_cell)),
     idle (message demo_cell)] (Inr r) ()"
proof -
  let ?ex = "to_execute_request (JObj [(''code'', JStr ''hi'')])"
  have code: "er_code ?ex = ''hi''" and silent: "\<not> er_silent ?ex" by code_simp+
  have "\<forall>n ctx. echo_execute (map (\<lambda>_. CHR ''X'')) True ?ex = Some (lang_execute (svc_language demo_echo_services) n ?ex ctx)"
    by (simp add: demo_echo_services_def default_session_def echo_execute_def code Let_def)
  moreover have "encodes (svc_shared demo_echo_services)" by (simp add: demo_echo_services_def demo_encodes)
  moreover have "msg_type (message demo_cell) = ''execute_request''" by code_simp
  moreover have "strip_prefix ''sleep:'' (er_code ?ex) = None" by (simp add: code)
  moreover have "reply demo_cell = 5" "world.more demo_world = ()" by (simp_all add: demo_cell_def demo_request_def)
  ultimately show ?thesis
    using echo_cell [of demo_echo_services demo_cell "map (\<lambda>_. CHR ''X'')" ?ex 1 demo_world] code silent by auto
qed

text \<open>A negative sleep panics instead of being refused as an invalid duration.\<close>

lemma negative_sleep_panics: "er_code ex = ''sleep:-1'' \<Longrightarrow> echo_execute up True ex = None"
proof -
  assume code: "er_code ex = ''sleep:-1''"
  have "strip_prefix ''sleep:'' ''sleep:-1'' = Some ''-1''" by code_simp
  moreover have "parse_f64 ''-1'' = Some (Finite (- 1))" by code_simp
  ultimately show ?thesis by (simp add: echo_execute_def code can_sleep_def Let_def)
qed

end
